theory Spec2Isabelle
  imports Complex_Main "HOL-Library.Sublist" "HOL-Library.List_Lexorder"
begin

section \<open>JavaScript values\<close>

text \<open>
  The tool handlers of \<^verbatim>\<open>src/tools/picnic-tools.ts\<close> work on loosely typed values: the
  responses of the Picnic client are parsed JSON, and the TypeScript casts on them are erased
  at run time. The model therefore computes on JavaScript values. A number is a rational
  (the finite doubles are among them) or one of the three non-finite numbers; products and
  quotients are rounded to the nearest double, and the sign of zero is not modelled. A string
  is the list of its code units. An object is the list of its own enumerable properties in
  enumeration order (keys pairwise distinct), which is the order \<^verbatim>\<open>Object.values\<close> follows.
\<close>

datatype jsnum = Finite rat | NaN | PosInf | NegInf

datatype jsval =
    JUndefined
  | JNull
  | JBool bool
  | JNum jsnum
  | JStr string
  | JArr "jsval list"
  | JObj "(string \<times> jsval) list"

datatype fault = TypeError | ClientError string

text \<open>Truthiness (\<^verbatim>\<open>ToBoolean\<close>): what \<^verbatim>\<open>!x\<close>, \<^verbatim>\<open>x && y\<close>, \<^verbatim>\<open>x || y\<close> and \<^verbatim>\<open>x ? a : b\<close> test.\<close>

fun truthy :: "jsval \<Rightarrow> bool" where
  "truthy JUndefined = False"
| "truthy JNull = False"
| "truthy (JBool b) = b"
| "truthy (JNum (Finite q)) = (q \<noteq> 0)"
| "truthy (JNum NaN) = False"
| "truthy (JNum PosInf) = True"
| "truthy (JNum NegInf) = True"
| "truthy (JStr s) = (s \<noteq> [])"
| "truthy (JArr xs) = True"
| "truthy (JObj kvs) = True"

text \<open>
  Property read \<^verbatim>\<open>v.k\<close>, for the data property names the handlers read (none of them is a
  built-in property of strings, arrays or \<^verbatim>\<open>Object.prototype\<close>): it throws a
  \<^verbatim>\<open>TypeError\<close> on \<^verbatim>\<open>undefined\<close> and \<^verbatim>\<open>null\<close>, and is \<^verbatim>\<open>undefined\<close> where the property is absent.
\<close>

fun getProp :: "jsval \<Rightarrow> string \<Rightarrow> fault + jsval" where
  "getProp JUndefined k = Inl TypeError"
| "getProp JNull k = Inl TypeError"
| "getProp (JObj kvs) k = Inr (case map_of kvs k of None \<Rightarrow> JUndefined | Some v \<Rightarrow> v)"
| "getProp v k = Inr JUndefined"

text \<open>Optional chaining \<^verbatim>\<open>v?.k\<close>: \<^verbatim>\<open>undefined\<close> on a nullish \<^verbatim>\<open>v\<close>, the property read otherwise.\<close>

fun optProp :: "jsval \<Rightarrow> string \<Rightarrow> jsval" where
  "optProp (JObj kvs) k = (case map_of kvs k of None \<Rightarrow> JUndefined | Some v \<Rightarrow> v)"
| "optProp v k = JUndefined"

fun isArray :: "jsval \<Rightarrow> bool" where
  "isArray (JArr xs) = True"
| "isArray v = False"

text \<open>
  \<^verbatim>\<open>slice(start, stop)\<close> of arrays and strings: a negative index counts from the end, both
  indices are clamped to the length.
\<close>

definition slice :: "int \<Rightarrow> int \<Rightarrow> 'a list \<Rightarrow> 'a list" where
  "slice start stop xs =
     (let len = int (length xs);
          k = (if start < 0 then max (len + start) 0 else min start len);
          final = (if stop < 0 then max (len + stop) 0 else min stop len)
      in take (nat (final - k)) (drop (nat k) xs))"

text \<open>
  \<^verbatim>\<open>s.replace(c, r)\<close> with a one-character string pattern \<^verbatim>\<open>c\<close>: the first occurrence only
  is replaced.
\<close>

fun replace :: "char \<Rightarrow> string \<Rightarrow> string \<Rightarrow> string" where
  "replace c r [] = []"
| "replace c r (x # xs) = (if x = c then r @ xs else x # replace c r xs)"

text \<open>
  \<^verbatim>\<open>ToString\<close>, as a template literal applies it. The decimal form of a number is the
  language's own (\<^verbatim>\<open>Number::toString\<close>) and is taken as a parameter.
\<close>

fun joinWith :: "string \<Rightarrow> string list \<Rightarrow> string" where
  "joinWith sep [] = []"
| "joinWith sep [x] = x"
| "joinWith sep (x # y # ys) = x @ sep @ joinWith sep (y # ys)"

fun toString :: "(jsnum \<Rightarrow> string) \<Rightarrow> jsval \<Rightarrow> string" where
  "toString nts JUndefined = ''undefined''"
| "toString nts JNull = ''null''"
| "toString nts (JBool b) = (if b then ''true'' else ''false'')"
| "toString nts (JNum n) = nts n"
| "toString nts (JStr s) = s"
| "toString nts (JArr xs) =
     joinWith '','' (map (\<lambda>x. if x = JUndefined \<or> x = JNull then [] else toString nts x) xs)"
| "toString nts (JObj kvs) = ''[object Object]''"

section \<open>The external collaborator and the effects of a handler\<close>

text \<open>
  Every call a handler makes on the Picnic client module is recorded, in the order of issue.
  The module itself is not part of the source file: what each call returns (or the fault it
  raises) is given by the world, as a function of the calls issued before it.
\<close>

datatype call =
    GetPicnicClient
  | InitializePicnicClient
  | GetShoppingCart
  | AddProductToShoppingCart jsval jsnum
  | SendRequest string string jsval "bool option"
  | Search string
  | GetDeliveries "string list"

record world =
  getPicnicClient :: "call list \<Rightarrow> fault + unit"
  initializePicnicClient :: "call list \<Rightarrow> fault + unit"
  getShoppingCart :: "call list \<Rightarrow> fault + jsval"
  addProductToShoppingCart :: "call list \<Rightarrow> jsval \<Rightarrow> jsnum \<Rightarrow> fault + jsval"
  sendRequest :: "call list \<Rightarrow> string \<Rightarrow> string \<Rightarrow> jsval \<Rightarrow> bool option \<Rightarrow> fault + jsval"
  searchProducts :: "call list \<Rightarrow> string \<Rightarrow> fault + jsval list"
  getDeliveries :: "call list \<Rightarrow> string list \<Rightarrow> fault + jsval list"
  numberToString :: "jsnum \<Rightarrow> string"
  stringToNumber :: "string \<Rightarrow> jsnum"

text \<open>
  The module state: the recipe cache (\<^verbatim>\<open>recipeCacheData\<close>, \<^verbatim>\<open>recipeCacheTimestamp\<close>) and the
  log of the calls issued so far.
\<close>

record state =
  recipeCacheData :: "jsval list option"
  recipeCacheTimestamp :: int
  issued :: "call list"

definition initialState :: state where
  "initialState = \<lparr>recipeCacheData = None, recipeCacheTimestamp = 0, issued = []\<rparr>"

type_synonym 'a io = "state \<Rightarrow> (fault + 'a) \<times> state"

definition resolve :: "'a \<Rightarrow> 'a io" where
  "resolve x s = (Inr x, s)"

definition js :: "fault + 'a \<Rightarrow> 'a io" where
  "js r s = (r, s)"

text \<open>\<^verbatim>\<open>var x = await m; k x\<close>: a fault of \<^verbatim>\<open>m\<close> ends the handler with that fault.\<close>

definition await :: "'a io \<Rightarrow> ('a \<Rightarrow> 'b io) \<Rightarrow> 'b io" where
  "await m k s = (case m s of (Inl e, s') \<Rightarrow> (Inl e, s') | (Inr x, s') \<Rightarrow> k x s')"

definition perform :: "call \<Rightarrow> (call list \<Rightarrow> fault + 'a) \<Rightarrow> 'a io" where
  "perform c answer s = (answer (issued s), s\<lparr>issued := issued s @ [c]\<rparr>)"

definition client_get :: "world \<Rightarrow> unit io" where
  "client_get w = perform GetPicnicClient (getPicnicClient w)"

definition client_getShoppingCart :: "world \<Rightarrow> jsval io" where
  "client_getShoppingCart w = perform GetShoppingCart (getShoppingCart w)"

definition client_addProductToShoppingCart :: "world \<Rightarrow> jsval \<Rightarrow> jsnum \<Rightarrow> jsval io" where
  "client_addProductToShoppingCart w pid n =
     perform (AddProductToShoppingCart pid n) (\<lambda>h. addProductToShoppingCart w h pid n)"

definition client_sendRequest ::
  "world \<Rightarrow> string \<Rightarrow> string \<Rightarrow> jsval \<Rightarrow> bool option \<Rightarrow> jsval io" where
  "client_sendRequest w m p b plain =
     perform (SendRequest m p b plain) (\<lambda>h. sendRequest w h m p b plain)"

text \<open>
  \<^verbatim>\<open>ensureClientInitialized\<close>: \<^verbatim>\<open>try { getPicnicClient() } catch { await initializePicnicClient() }\<close>.
\<close>

definition ensureClientInitialized :: "world \<Rightarrow> unit io" where
  "ensureClientInitialized w s =
     (case client_get w s of
        (Inl e, s') \<Rightarrow> perform InitializePicnicClient (initializePicnicClient w) s'
      | (Inr x, s') \<Rightarrow> (Inr (), s'))"

text \<open>The opening of every handler: \<^verbatim>\<open>await ensureClientInitialized(); getPicnicClient()\<close>.\<close>

definition getClient :: "world \<Rightarrow> unit io" where
  "getClient w = await (ensureClientInitialized w) (\<lambda>u. client_get w)"

text \<open>The calls that change something at the service: adding to the cart and every POST.\<close>

fun isWrite :: "call \<Rightarrow> bool" where
  "isWrite (AddProductToShoppingCart pid n) = True"
| "isWrite (SendRequest m p b plain) = (m \<noteq> ''GET'')"
| "isWrite c = False"

section \<open>Checkout\<close>

definition emDash :: string where
  "emDash = [CHR 0xE2, CHR 0x80, CHR 0x94]"

definition noTokensMessage :: string where
  "noTokensMessage = ''Cart has no state_token or mts '' @ emDash @ '' is the cart empty?''"

definition noSlotMessage :: string where
  "noSlotMessage = ''No delivery slot selected. Use picnic_set_delivery_slot first.''"

definition startFailedMessage :: string where
  "startFailedMessage = ''Checkout start failed '' @ emDash @ '' no order_id returned''"

text \<open>
  \<^verbatim>\<open>t?.slice(0, 16)?.replace("T", " ")\<close>: \<^verbatim>\<open>undefined\<close> on a nullish \<^verbatim>\<open>t\<close>; on any other value
  that is not a string one of the two method calls is a call of \<^verbatim>\<open>undefined\<close>.
\<close>

fun displayTime :: "jsval \<Rightarrow> fault + jsval" where
  "displayTime JUndefined = Inr JUndefined"
| "displayTime JNull = Inr JUndefined"
| "displayTime (JStr t) = Inr (JStr (replace CHR ''T'' '' '' (slice 0 16 t)))"
| "displayTime v = Inl TypeError"

definition delivery_window :: "jsval \<Rightarrow> jsval io" where
  "delivery_window delivery_slot =
     (if truthy delivery_slot then
        await (js (displayTime (optProp delivery_slot ''window_start''))) (\<lambda>start.
        await (js (displayTime (optProp delivery_slot ''window_end''))) (\<lambda>stop.
        resolve (JObj [(''start'', start), (''end'', stop)])))
      else resolve JNull)"

text \<open>The request bodies and the confirmation path, as the handler builds them.\<close>

definition checkoutBody :: "jsval \<Rightarrow> jsval \<Rightarrow> jsval" where
  "checkoutBody mts state_token =
     JObj [(''mts'', mts), (''oos_article_ids'', JObj []), (''state_token'', state_token)]"

definition paymentBody :: "jsval \<Rightarrow> jsval" where
  "paymentBody orderId =
     JObj [(''app_return_url'', JStr ''nl.picnic-supermarkt://payment''), (''order_id'', orderId)]"

definition confirmPath :: "world \<Rightarrow> jsval \<Rightarrow> string" where
  "confirmPath w orderId =
     ''/cart/checkout/order/'' @ toString (numberToString w) orderId @ ''/confirm''"

text \<open>The three write calls of the flow.\<close>

abbreviation startCall :: "jsval \<Rightarrow> jsval \<Rightarrow> call" where
  "startCall mts state_token \<equiv>
     SendRequest ''POST'' ''/cart/checkout/start'' (checkoutBody mts state_token) None"

abbreviation paymentCall :: "jsval \<Rightarrow> call" where
  "paymentCall orderId \<equiv>
     SendRequest ''POST'' ''/cart/checkout/initiate_payment'' (paymentBody orderId) None"

abbreviation confirmCall :: "world \<Rightarrow> jsval \<Rightarrow> call" where
  "confirmCall w orderId \<equiv> SendRequest ''POST'' (confirmPath w orderId) (JObj []) None"

text \<open>Step 1: the client and the current cart.\<close>

definition getCart :: "world \<Rightarrow> jsval io" where
  "getCart w = await (getClient w) (\<lambda>client. client_getShoppingCart w)"

text \<open>Step 4: confirm the order and shape the result.\<close>

definition confirmOrder :: "world \<Rightarrow> jsval \<Rightarrow> jsval io" where
  "confirmOrder w orderId =
     await (client_sendRequest w ''POST'' (confirmPath w orderId) (JObj []) None) (\<lambda>confirmResult.
     await (js (getProp confirmResult ''order_id'')) (\<lambda>order_id.
     await (js (getProp confirmResult ''total_price'')) (\<lambda>total_price.
     await (js (getProp confirmResult ''total_count'')) (\<lambda>total_count.
     await (js (getProp confirmResult ''delivery_slot'')) (\<lambda>delivery_slot.
     await (delivery_window delivery_slot) (\<lambda>window.
     resolve (JObj [(''order_id'', order_id), (''total_price'', total_price),
                    (''total_count'', total_count), (''delivery_window'', window)])))))))"

text \<open>Steps 2 and 3: start the checkout, then initiate the payment.\<close>

definition startCheckout :: "world \<Rightarrow> jsval \<Rightarrow> jsval \<Rightarrow> jsval io" where
  "startCheckout w mts state_token =
     await (client_sendRequest w ''POST'' ''/cart/checkout/start''
              (checkoutBody mts state_token) None) (\<lambda>startResult.
     await (js (getProp startResult ''order_id'')) (\<lambda>orderId.
     if \<not> truthy orderId then
       resolve (JObj [(''error'', JStr startFailedMessage), (''details'', startResult)])
     else
       await (client_sendRequest w ''POST'' ''/cart/checkout/initiate_payment''
                (paymentBody orderId) None) (\<lambda>payment.
       confirmOrder w orderId)))"

text \<open>
  The handler of \<^verbatim>\<open>picnic_checkout\<close>. Reading a property of the cart has no effect, so the
  short-circuit of \<^verbatim>\<open>!cart.state_token || !cart.mts\<close> is not visible: both are read first.
\<close>

definition picnic_checkout :: "world \<Rightarrow> jsval io" where
  "picnic_checkout w =
     await (getCart w) (\<lambda>cart.
     await (js (getProp cart ''state_token'')) (\<lambda>state_token.
     await (js (getProp cart ''mts'')) (\<lambda>mts.
     if \<not> truthy state_token \<or> \<not> truthy mts then
       resolve (JObj [(''error'', JStr noTokensMessage)])
     else if \<not> truthy (optProp (optProp cart ''selected_slot'') ''slot_id'') then
       resolve (JObj [(''error'', JStr noSlotMessage)])
     else startCheckout w mts state_token)))"

section \<open>Pagination\<close>

text \<open>
  \<^verbatim>\<open>x || d\<close> on a number \<^verbatim>\<open>x\<close> (the schema admits numbers only): \<^verbatim>\<open>d\<close> when \<^verbatim>\<open>x\<close> is 0.
  \<^verbatim>\<open>slice\<close> truncates a fractional index towards zero.
\<close>

definition orDefault :: "rat \<Rightarrow> rat \<Rightarrow> rat" where
  "orDefault x d = (if x = 0 then d else x)"

definition toInteger :: "rat \<Rightarrow> int" where
  "toInteger x = (if 0 \<le> x then \<lfloor>x\<rfloor> else \<lceil>x\<rceil>)"

definition num :: "rat \<Rightarrow> jsval" where
  "num x = JNum (Finite x)"

definition pagination :: "rat \<Rightarrow> rat \<Rightarrow> nat \<Rightarrow> nat \<Rightarrow> jsval" where
  "pagination startIndex limit returned totalCount =
     JObj [(''offset'', num startIndex), (''limit'', num limit),
           (''returned'', num (of_nat returned)), (''total'', num (of_nat totalCount)),
           (''hasMore'', JBool (startIndex + limit < of_nat totalCount))]"

definition client_search :: "world \<Rightarrow> string \<Rightarrow> jsval list io" where
  "client_search w q = perform (Search q) (\<lambda>h. searchProducts w h q)"

definition client_getDeliveries :: "world \<Rightarrow> string list \<Rightarrow> jsval list io" where
  "client_getDeliveries w f = perform (GetDeliveries f) (\<lambda>h. getDeliveries w h f)"

definition allResults :: "world \<Rightarrow> string \<Rightarrow> jsval list io" where
  "allResults w q = await (getClient w) (\<lambda>client. client_search w q)"

definition allDeliveries :: "world \<Rightarrow> string list \<Rightarrow> jsval list io" where
  "allDeliveries w f = await (getClient w) (\<lambda>client. client_getDeliveries w f)"

text \<open>The fields of a product kept for the caller; \<^verbatim>\<open>image_id\<close> only when it is truthy.\<close>

definition filtered :: "jsval \<Rightarrow> jsval" where
  "filtered product =
     JObj ([(''id'', optProp product ''id''), (''name'', optProp product ''name''),
            (''price'', optProp product ''display_price''),
            (''unit'', optProp product ''unit_quantity'')] @
           (if truthy (optProp product ''image_id'')
            then [(''image_id'', optProp product ''image_id'')] else []))"

fun filterProduct :: "jsval \<Rightarrow> fault + jsval" where
  "filterProduct JUndefined = Inl TypeError"
| "filterProduct JNull = Inl TypeError"
| "filterProduct product = Inr (filtered product)"

text \<open>\<^verbatim>\<open>xs.map(f)\<close> with a callback that may throw: the first fault ends the map.\<close>

fun mapE :: "('a \<Rightarrow> fault + 'b) \<Rightarrow> 'a list \<Rightarrow> fault + 'b list" where
  "mapE f [] = Inr []"
| "mapE f (x # xs) =
     (case f x of
        Inl e \<Rightarrow> Inl e
      | Inr y \<Rightarrow> (case mapE f xs of Inl e \<Rightarrow> Inl e | Inr ys \<Rightarrow> Inr (y # ys)))"

definition picnic_search :: "world \<Rightarrow> string \<Rightarrow> rat \<Rightarrow> rat \<Rightarrow> jsval io" where
  "picnic_search w args_query args_limit args_offset =
     await (allResults w args_query) (\<lambda>allResults.
       let startIndex = orDefault args_offset 0;
           limit = orDefault args_limit 5;
           paginatedResults =
             slice (toInteger startIndex) (toInteger (startIndex + limit)) allResults
       in await (js (mapE filterProduct paginatedResults)) (\<lambda>filteredResults.
          resolve (JObj [(''query'', JStr args_query), (''results'', JArr filteredResults),
                         (''pagination'',
                            pagination startIndex limit (length filteredResults)
                              (length allResults))])))"

definition picnic_get_deliveries :: "world \<Rightarrow> string list \<Rightarrow> rat \<Rightarrow> rat \<Rightarrow> jsval io" where
  "picnic_get_deliveries w args_filter args_limit args_offset =
     await (allDeliveries w args_filter) (\<lambda>allDeliveries.
       let startIndex = orDefault args_offset 0;
           limit = orDefault args_limit 10;
           paginatedDeliveries =
             slice (toInteger startIndex) (toInteger (startIndex + limit)) allDeliveries
       in resolve (JObj [(''deliveries'', JArr paginatedDeliveries),
                         (''pagination'',
                            pagination startIndex limit (length paginatedDeliveries)
                              (length allDeliveries))]))"

section \<open>Recipe discovery\<close>

text \<open>
  The shape test of \<^verbatim>\<open>extractRecipes\<close>: \<^verbatim>\<open>rec.recipe_id && Array.isArray(rec.ingredients)\<close>.
\<close>

definition isRecipeShaped :: "jsval \<Rightarrow> bool" where
  "isRecipeShaped rec =
     (truthy (optProp rec ''recipe_id'') \<and> isArray (optProp rec ''ingredients''))"

text \<open>
  \<^verbatim>\<open>recurse\<close> pushes on the array \<^verbatim>\<open>recipes\<close> of the enclosing call; the model passes that array
  in and returns it. \<^verbatim>\<open>forEach_recurse xs\<close> is \<^verbatim>\<open>xs.forEach(recurse)\<close>, and the values of an
  object are the second components of its property list.
\<close>

function (sequential) recurse :: "jsval \<Rightarrow> jsval list \<Rightarrow> jsval list"
  and forEach_recurse :: "jsval list \<Rightarrow> jsval list \<Rightarrow> jsval list" where
  "recurse (JArr xs) recipes = forEach_recurse xs recipes"
| "recurse (JObj kvs) recipes =
     (if isRecipeShaped (JObj kvs) then recipes @ [JObj kvs]
      else forEach_recurse (map snd kvs) recipes)"
| "recurse node recipes = recipes"
| "forEach_recurse [] recipes = recipes"
| "forEach_recurse (x # xs) recipes = forEach_recurse xs (recurse x recipes)"
  by pat_completeness auto
termination
proof (relation "measure (case_sum (\<lambda>p. size (fst p)) (\<lambda>p. size_list size (fst p)))")
  have "size_list size (map snd kvs) \<le> size_list (size_prod (\<lambda>k. 0) size) kvs"
    for kvs :: "(string \<times> jsval) list"
    by (induction kvs) auto
  then show "\<And>kvs recipes. \<not> isRecipeShaped (JObj kvs) \<Longrightarrow>
      (Inr (map snd kvs, recipes), Inl (JObj kvs, recipes))
        \<in> measure (case_sum (\<lambda>p. size (fst p)) (\<lambda>p. size_list size (fst p)))"
    by (simp add: le_imp_less_Suc)
qed auto

definition extractRecipes :: "jsval \<Rightarrow> jsval list" where
  "extractRecipes obj = recurse obj []"

text \<open>
  Positions in a payload: the node reached from the root by a path of child indices, an
  array's children being its elements and an object's its property values, both in order.
  \<^verbatim>\<open>matchAt t p\<close>: the path \<^verbatim>\<open>p\<close> leads to a recipe-shaped node of \<^verbatim>\<open>t\<close>.
\<close>

fun children :: "jsval \<Rightarrow> jsval list" where
  "children (JArr xs) = xs"
| "children (JObj kvs) = map snd kvs"
| "children v = []"

fun nodeAt :: "jsval \<Rightarrow> nat list \<Rightarrow> jsval option" where
  "nodeAt v [] = Some v"
| "nodeAt v (i # p) = (if i < length (children v) then nodeAt (children v ! i) p else None)"

definition matchAt :: "jsval \<Rightarrow> nat list \<Rightarrow> bool" where
  "matchAt t p = (case nodeAt t p of None \<Rightarrow> False | Some n \<Rightarrow> isRecipeShaped n)"

text \<open>
  The paths of the outermost recipe-shaped nodes, in document order: the path list the
  traversal is compared with.
\<close>

function pathsOf :: "jsval \<Rightarrow> nat list list" where
  "pathsOf v =
     (if isRecipeShaped v then [[]]
      else concat (map (\<lambda>j. map ((#) j) (pathsOf (children v ! j))) [0..<length (children v)]))"
  by pat_completeness auto
termination
proof (relation "measure size")
  have child: "size c < size v" if "c \<in> set (children v)" for c v :: jsval
  proof (cases v)
    case (JArr xs)
    with that show ?thesis
      by (auto simp: less_Suc_eq_le size_list_estimation')
  next
    case (JObj kvs)
    with that obtain k where "(k, c) \<in> set kvs"
      by auto
    then have "size c \<le> size_list (size_prod (\<lambda>k. 0) size) kvs"
      by (induction kvs) auto
    with JObj show ?thesis
      by simp
  qed (use that in auto)
  show "\<And>v x. \<not> isRecipeShaped v \<Longrightarrow> x \<in> set [0..<length (children v)] \<Longrightarrow>
      (children v ! x, v) \<in> measure size"
    by (simp add: child)
qed simp

declare pathsOf.simps [simp del]

section \<open>The traversal on a value graph with references\<close>

text \<open>
  A parsed JSON document is a tree, which the datatype above is. Values built in memory can
  share objects and can contain reference cycles; for those the model is a store: a node is a
  primitive or a reference, and the store maps a reference to an array or an object whose
  members are nodes again. The traversal is the same function; its extra argument bounds the
  depth of the recursion, and \<^verbatim>\<open>None\<close> says that the bound was exceeded.
\<close>

datatype node = Prim jsval | Ref nat

datatype cell = HArr "node list" | HObj "(string \<times> node) list"

type_synonym store = "(nat \<times> cell) list"

fun truthyNode :: "node \<Rightarrow> bool" where
  "truthyNode (Prim v) = truthy v"
| "truthyNode (Ref a) = True"

fun isArrayNode :: "store \<Rightarrow> node \<Rightarrow> bool" where
  "isArrayNode h (Prim v) = False"
| "isArrayNode h (Ref a) = (case map_of h a of Some (HArr xs) \<Rightarrow> True | _ \<Rightarrow> False)"

definition isRecipeShapedCell :: "store \<Rightarrow> (string \<times> node) list \<Rightarrow> bool" where
  "isRecipeShapedCell h kvs =
     ((case map_of kvs ''recipe_id'' of None \<Rightarrow> False | Some v \<Rightarrow> truthyNode v) \<and>
      (case map_of kvs ''ingredients'' of None \<Rightarrow> False | Some v \<Rightarrow> isArrayNode h v))"

fun forEachG :: "(node \<Rightarrow> node list \<Rightarrow> node list option) \<Rightarrow> node list \<Rightarrow> node list \<Rightarrow>
    node list option" where
  "forEachG f [] recipes = Some recipes"
| "forEachG f (x # xs) recipes =
     (case f x recipes of None \<Rightarrow> None | Some recipes' \<Rightarrow> forEachG f xs recipes')"

fun recurseG :: "store \<Rightarrow> nat \<Rightarrow> node \<Rightarrow> node list \<Rightarrow> node list option" where
  "recurseG h 0 n recipes = None"
| "recurseG h (Suc d) (Prim v) recipes = Some recipes"
| "recurseG h (Suc d) (Ref a) recipes =
     (case map_of h a of
        None \<Rightarrow> Some recipes
      | Some (HArr xs) \<Rightarrow> forEachG (recurseG h d) xs recipes
      | Some (HObj kvs) \<Rightarrow>
          if isRecipeShapedCell h kvs then Some (recipes @ [Ref a])
          else forEachG (recurseG h d) (map snd kvs) recipes)"

text \<open>
  A store without reference cycles is one with a rank that falls along every reference.
\<close>

fun members :: "cell \<Rightarrow> node list" where
  "members (HArr xs) = xs"
| "members (HObj kvs) = map snd kvs"

fun below :: "(nat \<Rightarrow> nat) \<Rightarrow> nat \<Rightarrow> node \<Rightarrow> bool" where
  "below rank a (Prim v) = True"
| "below rank a (Ref c) = (rank c < rank a)"

definition ranked :: "store \<Rightarrow> (nat \<Rightarrow> nat) \<Rightarrow> bool" where
  "ranked h rank = list_all (\<lambda>(a, c). list_all (below rank a) (members c)) h"

text \<open>The depth a node needs: none for a primitive, one more than its rank for a reference.\<close>

fun weight :: "(nat \<Rightarrow> nat) \<Rightarrow> node \<Rightarrow> nat" where
  "weight rank (Prim v) = 0"
| "weight rank (Ref a) = Suc (rank a)"

text \<open>An array that contains itself, and a store without cycles holding one recipe.\<close>

definition cyclicStore :: store where
  "cyclicStore = [(0, HArr [Ref 0])]"

definition exampleStore :: store where
  "exampleStore =
     [(0, HObj [(''data'', Ref 1)]),
      (1, HArr [Ref 2, Prim (JNum (Finite 5))]),
      (2, HObj [(''recipe_id'', Prim (JStr ''r1'')), (''ingredients'', Ref 3)]),
      (3, HArr [])]"

definition exampleRank :: "nat \<Rightarrow> nat" where
  "exampleRank a = 3 - a"

section \<open>The recipe cache\<close>

definition RECIPE_CACHE_TTL_MS :: int where
  "RECIPE_CACHE_TTL_MS = 5 * 60 * 1000"

text \<open>
  Freshness: an entry exists and less than the time to live has passed since its timestamp.
\<close>

definition isFresh :: "state \<Rightarrow> int \<Rightarrow> bool" where
  "isFresh s now =
     (recipeCacheData s \<noteq> None \<and> now - recipeCacheTimestamp s < RECIPE_CACHE_TTL_MS)"

abbreviation fetchCall :: call where
  "fetchCall \<equiv> SendRequest ''GET'' ''/pages/meals-planner-root'' JNull (Some True)"

fun isFetch :: "call \<Rightarrow> bool" where
  "isFetch (SendRequest m p b plain) = (m = ''GET'' \<and> p = ''/pages/meals-planner-root'')"
| "isFetch c = False"

definition cacheRecipes :: "jsval list \<Rightarrow> int \<Rightarrow> jsval list io" where
  "cacheRecipes recipes now s =
     (Inr recipes, s\<lparr>recipeCacheData := Some recipes, recipeCacheTimestamp := now\<rparr>)"

definition refresh :: "world \<Rightarrow> int \<Rightarrow> jsval list io" where
  "refresh w now =
     await (getClient w) (\<lambda>client.
     await (client_sendRequest w ''GET'' ''/pages/meals-planner-root'' JNull (Some True))
       (\<lambda>response. cacheRecipes (extractRecipes response) now))"

text \<open>
  \<^verbatim>\<open>fetchRecipes\<close>, with \<^verbatim>\<open>now\<close> the value of \<^verbatim>\<open>Date.now()\<close> at the call. The test is
  \<^verbatim>\<open>recipeCacheData && now - recipeCacheTimestamp < RECIPE_CACHE_TTL_MS\<close>, an array (also an
  empty one) being truthy.
\<close>

definition fetchRecipes :: "world \<Rightarrow> int \<Rightarrow> jsval list io" where
  "fetchRecipes w now s =
     (case recipeCacheData s of
        None \<Rightarrow> refresh w now s
      | Some recipes \<Rightarrow>
          if now - recipeCacheTimestamp s < RECIPE_CACHE_TTL_MS then (Inr recipes, s)
          else refresh w now s)"

section \<open>The recipe handlers\<close>

text \<open>
  The arithmetic of numbers. The product and the quotient of two finite numbers are the
  exact ones rounded to the nearest double, as \<^verbatim>\<open>*\<close> and \<^verbatim>\<open>/\<close> do (IEEE 754 binary64, ties to
  the even significand). A double has 53 significant bits; a normal one has an exponent from
  -1022 to 1023, below them lie the subnormal ones, the multiples of \<^verbatim>\<open>2^-1074\<close>, and what
  rounds to \<^verbatim>\<open>2^1024\<close> or more is an infinity. \<^verbatim>\<open>bitLength n\<close> is the number of binary digits
  of \<^verbatim>\<open>n\<close>; \<^verbatim>\<open>ilog2 a\<close> is the exponent \<^verbatim>\<open>e\<close> of a positive \<^verbatim>\<open>a\<close>, with \<^verbatim>\<open>2^e <= a < 2^(e+1)\<close>;
  \<^verbatim>\<open>ulp a\<close> is the distance between the doubles around \<^verbatim>\<open>a\<close>; \<^verbatim>\<open>roundEven\<close> gives the nearest
  integer, with ties to the even one; \<^verbatim>\<open>fl r\<close> is the double nearest to \<^verbatim>\<open>r\<close>; and
  \<^verbatim>\<open>isDouble r\<close> says that \<^verbatim>\<open>r\<close> is a double. \<^verbatim>\<open>ToNumber\<close> of a string is the language's own
  and is taken as a parameter of the world.
\<close>

function bitLength :: "int \<Rightarrow> int" where
  "bitLength n = (if n \<le> 0 then 0 else 1 + bitLength (n div 2))"
  by auto

termination
  by (relation "measure nat") auto

declare bitLength.simps [simp del]

definition pow2 :: "int \<Rightarrow> rat" where
  "pow2 e = (if 0 \<le> e then 2 ^ nat e else 1 / 2 ^ nat (- e))"

definition ilog2 :: "rat \<Rightarrow> int" where
  "ilog2 a = (if 1 \<le> a then bitLength \<lfloor>a\<rfloor> - 1 else - bitLength (\<lceil>1 / a\<rceil> - 1))"

definition ulp :: "rat \<Rightarrow> rat" where
  "ulp a = pow2 (max (ilog2 a) (- 1022) - 52)"

definition roundEven :: "rat \<Rightarrow> int" where
  "roundEven x =
     (let f = \<lfloor>x\<rfloor>; r = x - of_int f
      in if r < 1 / 2 then f else if 1 / 2 < r then f + 1 else if even f then f else f + 1)"

definition fl :: "rat \<Rightarrow> jsnum" where
  "fl r =
     (if r = 0 then Finite 0
      else let a = \<bar>r\<bar>; m = of_int (roundEven (a / ulp a)) * ulp a
           in if pow2 1024 \<le> m then (if 0 < r then PosInf else NegInf)
              else Finite (if 0 < r then m else - m))"


fun js_div :: "jsnum \<Rightarrow> jsnum \<Rightarrow> jsnum" where
  "js_div (Finite a) (Finite b) =
     (if b \<noteq> 0 then fl (a / b) else if a = 0 then NaN else if 0 < a then PosInf else NegInf)"
| "js_div (Finite a) PosInf = Finite 0"
| "js_div (Finite a) NegInf = Finite 0"
| "js_div PosInf (Finite b) = (if 0 \<le> b then PosInf else NegInf)"
| "js_div NegInf (Finite b) = (if 0 \<le> b then NegInf else PosInf)"
| "js_div x y = NaN"

fun js_mul :: "jsnum \<Rightarrow> jsnum \<Rightarrow> jsnum" where
  "js_mul (Finite a) (Finite b) = fl (a * b)"
| "js_mul (Finite a) PosInf = (if a = 0 then NaN else if 0 < a then PosInf else NegInf)"
| "js_mul (Finite a) NegInf = (if a = 0 then NaN else if 0 < a then NegInf else PosInf)"
| "js_mul PosInf (Finite b) = (if b = 0 then NaN else if 0 < b then PosInf else NegInf)"
| "js_mul NegInf (Finite b) = (if b = 0 then NaN else if 0 < b then NegInf else PosInf)"
| "js_mul PosInf PosInf = PosInf"
| "js_mul PosInf NegInf = NegInf"
| "js_mul NegInf PosInf = NegInf"
| "js_mul NegInf NegInf = PosInf"
| "js_mul x y = NaN"

fun Math_ceil :: "jsnum \<Rightarrow> jsnum" where
  "Math_ceil (Finite a) = Finite (of_int \<lceil>a\<rceil>)"
| "Math_ceil x = x"

fun toNumber :: "world \<Rightarrow> jsval \<Rightarrow> jsnum" where
  "toNumber w JUndefined = NaN"
| "toNumber w JNull = Finite 0"
| "toNumber w (JBool b) = Finite (if b then 1 else 0)"
| "toNumber w (JNum n) = n"
| "toNumber w (JStr t) = stringToNumber w t"
| "toNumber w v = stringToNumber w (toString (numberToString w) v)"

text \<open>\<^verbatim>\<open>x.length\<close>, \<^verbatim>\<open>x.map(f)\<close> and \<^verbatim>\<open>for (var i of x)\<close> on a value \<^verbatim>\<open>x\<close>.\<close>

fun lengthOf :: "jsval \<Rightarrow> fault + jsval" where
  "lengthOf JUndefined = Inl TypeError"
| "lengthOf JNull = Inl TypeError"
| "lengthOf (JArr xs) = Inr (num (of_nat (length xs)))"
| "lengthOf (JStr t) = Inr (num (of_nat (length t)))"
| "lengthOf v = Inr (optProp v ''length'')"

fun mapArray :: "(jsval \<Rightarrow> fault + jsval) \<Rightarrow> jsval \<Rightarrow> fault + jsval" where
  "mapArray f (JArr xs) = (case mapE f xs of Inl e \<Rightarrow> Inl e | Inr ys \<Rightarrow> Inr (JArr ys))"
| "mapArray f v = Inl TypeError"

fun iterate :: "jsval \<Rightarrow> fault + jsval list" where
  "iterate (JArr xs) = Inr xs"
| "iterate (JStr t) = Inr (map (\<lambda>c. JStr [c]) t)"
| "iterate v = Inl TypeError"

text \<open>\<^verbatim>\<open>recipes.find((r) => r.recipe_id === id)\<close>: \<^verbatim>\<open>undefined\<close> when no recipe has the id.\<close>

fun findRecipe :: "string \<Rightarrow> jsval list \<Rightarrow> fault + jsval" where
  "findRecipe rid [] = Inr JUndefined"
| "findRecipe rid (r # rs) =
     (case getProp r ''recipe_id'' of
        Inl e \<Rightarrow> Inl e
      | Inr v \<Rightarrow> if v = JStr rid then Inr r else findRecipe rid rs)"

definition notFound :: "string \<Rightarrow> jsval" where
  "notFound rid =
     JObj [(''error'', JStr (''Recipe '' @ [CHR 0x27] @ rid @ [CHR 0x27] @ '' not found'')),
           (''suggestion'', JStr ''Use picnic_get_recipes to find valid recipe IDs.'')]"

text \<open>The handler of \<^verbatim>\<open>picnic_get_recipes\<close>.\<close>

definition summary :: "jsval \<Rightarrow> fault + jsval" where
  "summary r =
     (case getProp r ''recipe_id'' of
        Inl e \<Rightarrow> Inl e
      | Inr recipe_id \<Rightarrow>
          (case lengthOf (optProp r ''ingredients'') of
             Inl e \<Rightarrow> Inl e
           | Inr ingredient_count \<Rightarrow>
               Inr (JObj [(''recipe_id'', recipe_id), (''name'', optProp r ''name''),
                 (''description'', optProp r ''description''),
                 (''preparation_time_in_minutes'',
                    optProp r ''active_preparation_time_in_minutes''),
                 (''default_servings'', optProp r ''default_servings''),
                 (''course'', optProp r ''course''), (''kitchen'', optProp r ''kitchen''),
                 (''is_vega_vegan'', optProp r ''is_vega_vegan''),
                 (''recipe_type'', optProp r ''recipe_type''),
                 (''quality_cue'', optProp r ''quality_cue''),
                 (''label'', optProp (optProp r ''display_label'') ''text''),
                 (''ingredient_count'', ingredient_count)])))"

definition listRecipes :: "jsval list \<Rightarrow> jsval io" where
  "listRecipes recipes =
     await (js (mapE summary recipes)) (\<lambda>summaries.
     resolve (JObj [(''recipes'', JArr summaries),
                    (''total'', num (of_nat (length summaries)))]))"

definition picnic_get_recipes :: "world \<Rightarrow> int \<Rightarrow> jsval io" where
  "picnic_get_recipes w now = await (fetchRecipes w now) listRecipes"

text \<open>The handler of \<^verbatim>\<open>picnic_get_recipe_details\<close>.\<close>

definition ingredientView :: "jsval \<Rightarrow> fault + jsval" where
  "ingredientView i =
     (case getProp i ''selling_unit_id'' of
        Inl e \<Rightarrow> Inl e
      | Inr selling_unit_id \<Rightarrow>
          Inr (JObj [(''selling_unit_id'', selling_unit_id), (''name'', optProp i ''name''),
            (''ingredient_type'', optProp i ''ingredient_type''),
            (''quantity'', optProp i ''display_ingredient_quantity''),
            (''unit'', optProp i ''display_unit_of_measurement''),
            (''selling_unit_quantity'', optProp i ''selling_unit_quantity''),
            (''availability'', optProp i ''availability_status'')]))"

definition instructionView :: "jsval \<Rightarrow> fault + jsval" where
  "instructionView step =
     (case getProp step ''header'' of
        Inl e \<Rightarrow> Inl e
      | Inr header \<Rightarrow>
          Inr (JObj [(''header'', header), (''body'', optProp step ''body''),
                     (''type'', optProp step ''type'')]))"

definition imageIds :: "jsval \<Rightarrow> fault + jsval" where
  "imageIds images =
     (if images = JUndefined \<or> images = JNull then Inr JUndefined
      else mapArray (\<lambda>img. getProp img ''image_id'') images)"

definition recipeDetails :: "jsval \<Rightarrow> jsval io" where
  "recipeDetails recipe =
     await (js (mapArray ingredientView (optProp recipe ''ingredients''))) (\<lambda>ingredients.
     await (js (mapArray instructionView (optProp recipe ''preparation_instructions'')))
       (\<lambda>preparation_instructions.
     await (js (imageIds (optProp recipe ''images''))) (\<lambda>images.
     resolve (JObj [(''recipe_id'', optProp recipe ''recipe_id''),
       (''name'', optProp recipe ''name''), (''description'', optProp recipe ''description''),
       (''course'', optProp recipe ''course''), (''kitchen'', optProp recipe ''kitchen''),
       (''is_vega_vegan'', optProp recipe ''is_vega_vegan''),
       (''recipe_type'', optProp recipe ''recipe_type''),
       (''default_servings'', optProp recipe ''default_servings''),
       (''minimum_servings'', optProp recipe ''minimum_servings''),
       (''maximum_servings'', optProp recipe ''maximum_servings''),
       (''serving_step'', optProp recipe ''serving_step''),
       (''preparation_time_in_minutes'',
          optProp recipe ''active_preparation_time_in_minutes''),
       (''quality_cue'', optProp recipe ''quality_cue''),
       (''label'', optProp (optProp recipe ''display_label'') ''text''),
       (''ingredients'', ingredients),
       (''preparation_instructions'', preparation_instructions),
       (''images'', images)]))))"

definition getRecipeDetails :: "string \<Rightarrow> jsval list \<Rightarrow> jsval io" where
  "getRecipeDetails rid recipes =
     await (js (findRecipe rid recipes)) (\<lambda>recipe.
     if \<not> truthy recipe then resolve (notFound rid) else recipeDetails recipe)"

definition picnic_get_recipe_details :: "world \<Rightarrow> int \<Rightarrow> string \<Rightarrow> jsval io" where
  "picnic_get_recipe_details w now args_recipe_id =
     await (fetchRecipes w now) (getRecipeDetails args_recipe_id)"

text \<open>
  The handler of \<^verbatim>\<open>picnic_add_recipe_to_cart\<close>. The loop over the ingredients carries the
  three result arrays; a fault of a call leaves the loop and the handler.
\<close>

definition quantityOf :: "world \<Rightarrow> jsnum \<Rightarrow> jsval \<Rightarrow> jsnum" where
  "quantityOf w scale ingredient =
     Math_ceil (js_mul (toNumber w (optProp ingredient ''selling_unit_quantity'')) scale)"

fun addIngredients ::
  "world \<Rightarrow> jsnum \<Rightarrow> jsval list \<Rightarrow> jsval list \<times> jsval list \<times> jsval list \<Rightarrow>
     (jsval list \<times> jsval list \<times> jsval list) io" where
  "addIngredients w scale [] acc s = (Inr acc, s)"
| "addIngredients w scale (ingredient # rest) (added, skippedCupboard, unavailable) s =
     (case getProp ingredient ''ingredient_type'' of
        Inl e \<Rightarrow> (Inl e, s)
      | Inr ingredient_type \<Rightarrow>
          if ingredient_type = JStr ''CUPBOARD'' then
            addIngredients w scale rest
              (added, skippedCupboard @ [optProp ingredient ''name''], unavailable) s
          else if optProp ingredient ''availability_status'' \<noteq> JStr ''AVAILABLE'' then
            addIngredients w scale rest
              (added, skippedCupboard, unavailable @ [optProp ingredient ''name'']) s
          else
            (case client_addProductToShoppingCart w (optProp ingredient ''selling_unit_id'')
                    (quantityOf w scale ingredient) s of
               (Inl e, s') \<Rightarrow> (Inl e, s')
             | (Inr cart, s') \<Rightarrow>
                 addIngredients w scale rest
                   (added @ [JObj [(''name'', optProp ingredient ''name''),
                                   (''quantity'', JNum (quantityOf w scale ingredient))]],
                    skippedCupboard, unavailable) s'))"

text \<open>
  \<^verbatim>\<open>servings = args.servings ?? recipe.default_servings\<close> and
  \<^verbatim>\<open>scale = servings / recipe.default_servings\<close>.
\<close>

definition servingsOf :: "rat option \<Rightarrow> jsval \<Rightarrow> jsval" where
  "servingsOf args_servings recipe =
     (case args_servings of Some n \<Rightarrow> num n | None \<Rightarrow> optProp recipe ''default_servings'')"

definition scaleOf :: "world \<Rightarrow> rat option \<Rightarrow> jsval \<Rightarrow> jsnum" where
  "scaleOf w args_servings recipe =
     js_div (toNumber w (servingsOf args_servings recipe))
       (toNumber w (optProp recipe ''default_servings''))"

definition addRecipeToCart :: "world \<Rightarrow> string \<Rightarrow> rat option \<Rightarrow> jsval list \<Rightarrow> jsval io" where
  "addRecipeToCart w rid args_servings recipes =
     await (js (findRecipe rid recipes)) (\<lambda>recipe.
     if \<not> truthy recipe then resolve (notFound rid)
     else
       await (getClient w) (\<lambda>client.
       await (js (iterate (optProp recipe ''ingredients''))) (\<lambda>ingredients.
       await (addIngredients w (scaleOf w args_servings recipe) ingredients ([], [], []))
         (\<lambda>(added, skippedCupboard, unavailable).
       resolve (JObj [(''recipe_name'', optProp recipe ''name''),
                      (''servings'', servingsOf args_servings recipe),
                      (''added'', JArr added), (''skipped_cupboard'', JArr skippedCupboard),
                      (''unavailable'', JArr unavailable)])))))"

definition picnic_add_recipe_to_cart ::
  "world \<Rightarrow> int \<Rightarrow> string \<Rightarrow> rat option \<Rightarrow> jsval io" where
  "picnic_add_recipe_to_cart w now args_recipe_id args_servings =
     await (fetchRecipes w now) (addRecipeToCart w args_recipe_id args_servings)"

text \<open>
  The classes of ingredients the loop tells apart, and the selling unit quantity of an
  ingredient where it is a number.
\<close>

definition isCupboard :: "jsval \<Rightarrow> bool" where
  "isCupboard i = (optProp i ''ingredient_type'' = JStr ''CUPBOARD'')"

definition isAvailable :: "jsval \<Rightarrow> bool" where
  "isAvailable i = (optProp i ''availability_status'' = JStr ''AVAILABLE'')"

definition purchasable :: "jsval \<Rightarrow> bool" where
  "purchasable i = (\<not> isCupboard i \<and> isAvailable i)"

definition unitQuantity :: "jsval \<Rightarrow> rat" where
  "unitQuantity i =
     (case optProp i ''selling_unit_quantity'' of JNum (Finite q) \<Rightarrow> q | _ \<Rightarrow> 0)"

section \<open>Examples\<close>

text \<open>Twenty-three results, numbered from 0.\<close>

definition exampleList :: "jsval list" where
  "exampleList = map (\<lambda>i. JObj [(''id'', num (of_nat i))]) [0..<23]"

text \<open>
  A world for examples: the client is available, the cart is \<^verbatim>\<open>cart\<close>, a request is answered
  by its path and an add-to-cart call by the product it names; a search and the list of
  deliveries have the 23 results above.
\<close>

definition exampleWorld ::
  "jsval \<Rightarrow> (string \<Rightarrow> fault + jsval) \<Rightarrow> (jsval \<Rightarrow> fault + jsval) \<Rightarrow> world" where
  "exampleWorld cart respond add =
     \<lparr>getPicnicClient = (\<lambda>h. Inr ()),
      initializePicnicClient = (\<lambda>h. Inr ()),
      getShoppingCart = (\<lambda>h. Inr cart),
      addProductToShoppingCart = (\<lambda>h pid n. add pid),
      sendRequest = (\<lambda>h m p b plain. respond p),
      searchProducts = (\<lambda>h q. Inr exampleList),
      getDeliveries = (\<lambda>h f. Inr exampleList),
      numberToString = (\<lambda>n. ''NaN''),
      stringToNumber = (\<lambda>t. NaN)\<rparr>"

text \<open>A checkout that succeeds: order \<^verbatim>\<open>O1\<close>, 23.5 for 7 items.\<close>

definition exampleCart :: jsval where
  "exampleCart = JObj [(''mts'', JNum (Finite 7)), (''state_token'', JStr ''st''),
                       (''selected_slot'', JObj [(''slot_id'', JStr ''s1'')])]"

definition exampleConfirmation :: jsval where
  "exampleConfirmation =
     JObj [(''order_id'', JStr ''O1''), (''total_price'', JNum (Finite 23.5)),
           (''total_count'', JNum (Finite 7)),
           (''delivery_slot'', JObj [(''window_start'', JStr ''2024-01-01T10:00:00Z''),
                                     (''window_end'', JStr ''2024-01-01T11:00:00Z'')])]"

definition exampleRespond :: "string \<Rightarrow> fault + jsval" where
  "exampleRespond p =
     (if p = ''/cart/checkout/start'' then Inr (JObj [(''order_id'', JStr ''O1'')])
      else if p = ''/cart/checkout/order/O1/confirm'' then Inr exampleConfirmation
      else Inr (JObj []))"

text \<open>
  A payload with two recipes; the first holds a recipe-shaped node of its own, and the object
  around the second has an empty identifier.
\<close>

definition exampleRecipeA :: jsval where
  "exampleRecipeA =
     JObj [(''recipe_id'', JStr ''a''), (''name'', JStr ''Soup''),
           (''ingredients'', JArr []),
           (''related'', JArr [JObj [(''recipe_id'', JStr ''c''), (''ingredients'', JArr [])]])]"

definition exampleRecipeB :: jsval where
  "exampleRecipeB =
     JObj [(''recipe_id'', JStr ''b''), (''name'', JStr ''Stew''), (''ingredients'', JArr [])]"

definition examplePayload :: jsval where
  "examplePayload =
     JObj [(''title'', JStr ''Meals''),
           (''sections'',
              JArr [exampleRecipeA,
                    JObj [(''recipe_id'', JStr []), (''items'', JArr [JNull, exampleRecipeB])]])]"

text \<open>
  A recipe for two with five ingredients, a recipe for four whose ingredients are all skipped,
  the page that holds both, and clients that serve the page and either accept every addition
  or refuse the product \<^verbatim>\<open>p-cream\<close>.
\<close>

definition ingredient :: "string \<Rightarrow> string \<Rightarrow> string \<Rightarrow> rat \<Rightarrow> string \<Rightarrow> jsval" where
  "ingredient pid nm kind q status =
     JObj [(''selling_unit_id'', JStr pid), (''name'', JStr nm), (''ingredient_type'', JStr kind),
           (''selling_unit_quantity'', num q), (''availability_status'', JStr status)]"

definition pastaRecipe :: jsval where
  "pastaRecipe =
     JObj [(''recipe_id'', JStr ''r1''), (''name'', JStr ''Pasta''),
           (''default_servings'', num 2),
           (''ingredients'',
              JArr [ingredient ''p-salt'' ''Salt'' ''CUPBOARD'' 1 ''AVAILABLE'',
                    ingredient ''p-tomato'' ''Tomato'' ''CORE'' 3 ''AVAILABLE'',
                    ingredient ''p-basil'' ''Basil'' ''VARIATION'' 1 ''OUT_OF_STOCK'',
                    ingredient ''p-cream'' ''Cream'' ''CORE'' 1.5 ''AVAILABLE'',
                    ingredient ''p-pasta'' ''Penne'' ''CORE'' 1 ''AVAILABLE''])]"

definition staplesRecipe :: jsval where
  "staplesRecipe =
     JObj [(''recipe_id'', JStr ''r2''), (''name'', JStr ''Broth''),
           (''default_servings'', num 4),
           (''ingredients'',
              JArr [ingredient ''p-salt'' ''Salt'' ''CUPBOARD'' 1 ''AVAILABLE'',
                    ingredient ''p-leek'' ''Leek'' ''CORE'' 2 ''OUT_OF_STOCK''])]"

definition mealsPage :: jsval where
  "mealsPage = JObj [(''body'', JArr [JObj [(''items'', JArr [pastaRecipe, staplesRecipe])]])]"

definition servePage :: "string \<Rightarrow> fault + jsval" where
  "servePage p = (if p = ''/pages/meals-planner-root'' then Inr mealsPage else Inr JNull)"

definition refuseCream :: "jsval \<Rightarrow> fault + jsval" where
  "refuseCream pid =
     (if pid = JStr ''p-cream'' then Inl (ClientError ''product unavailable'') else Inr JNull)"

definition acceptAll :: "jsval \<Rightarrow> fault + jsval" where
  "acceptAll pid = Inr JNull"

text \<open>The state after the page was fetched at time 1000.\<close>

definition cachedState :: state where
  "cachedState =
     \<lparr>recipeCacheData = Some [pastaRecipe, staplesRecipe], recipeCacheTimestamp = 1000,
      issued = [GetPicnicClient, GetPicnicClient, fetchCall]\<rparr>"





section \<open>Properties of the checkout\<close>

lemma getProp_optProp: "v \<noteq> JUndefined \<Longrightarrow> v \<noteq> JNull \<Longrightarrow> getProp v k = Inr (optProp v k)"
  by (cases v) simp_all

lemma optProp_defined: "optProp v k \<noteq> JUndefined \<Longrightarrow> v \<noteq> JUndefined \<and> v \<noteq> JNull"
  by (cases v) auto

lemma truthy_optProp: "truthy (optProp v k) \<Longrightarrow> getProp v k = Inr (optProp v k)"
  by (cases v) auto

lemma ensure_writes:
  "ensureClientInitialized w s = (r, s') \<Longrightarrow> filter isWrite (issued s') = filter isWrite (issued s)"
  by (auto simp: ensureClientInitialized_def client_get_def perform_def split: prod.splits sum.splits)

lemma getCart_writes:
  "getCart w s = (r, s') \<Longrightarrow> filter isWrite (issued s') = filter isWrite (issued s)"
  unfolding getCart_def getClient_def await_def client_get_def client_getShoppingCart_def
  by (auto simp: perform_def split: prod.splits sum.splits dest!: ensure_writes)

lemma checkout_no_tokens:
  assumes "getCart w s = (Inr cart, s1)" "cart \<noteq> JUndefined" "cart \<noteq> JNull"
    and "\<not> truthy (optProp cart ''state_token'') \<or> \<not> truthy (optProp cart ''mts'')"
  shows "picnic_checkout w s = (Inr (JObj [(''error'', JStr noTokensMessage)]), s1)"
  using assms by (auto simp: picnic_checkout_def await_def js_def resolve_def getProp_optProp)

lemma checkout_no_slot:
  assumes "getCart w s = (Inr cart, s1)"
    and "truthy (optProp cart ''state_token'')" "truthy (optProp cart ''mts'')"
    and "\<not> truthy (optProp (optProp cart ''selected_slot'') ''slot_id'')"
  shows "picnic_checkout w s = (Inr (JObj [(''error'', JStr noSlotMessage)]), s1)"
  using assms by (auto simp: picnic_checkout_def await_def js_def resolve_def truthy_optProp)

lemma checkout_reaches_start:
  assumes "getCart w s = (Inr cart, s1)"
    and "truthy (optProp cart ''state_token'')" "truthy (optProp cart ''mts'')"
    and "truthy (optProp (optProp cart ''selected_slot'') ''slot_id'')"
  shows "picnic_checkout w s = startCheckout w (optProp cart ''mts'') (optProp cart ''state_token'') s1"
  using assms by (auto simp: picnic_checkout_def await_def js_def resolve_def truthy_optProp)

lemma start_no_order_id:
  assumes "sendRequest w (issued s1) ''POST'' ''/cart/checkout/start'' (checkoutBody mts st) None
             = Inr startResult"
    and "startResult \<noteq> JUndefined" "startResult \<noteq> JNull"
    and "\<not> truthy (optProp startResult ''order_id'')"
  shows "startCheckout w mts st s1 =
           (Inr (JObj [(''error'', JStr startFailedMessage), (''details'', startResult)]),
            s1\<lparr>issued := issued s1 @
                  [SendRequest ''POST'' ''/cart/checkout/start'' (checkoutBody mts st) None]\<rparr>)"
  using assms
  by (simp add: startCheckout_def await_def js_def resolve_def getProp_optProp
      client_sendRequest_def perform_def)

text \<open>
  Claim C2. Checkout fails safely. Let the cart read of step 1 return a cart (any value but
  \<^verbatim>\<open>undefined\<close> and \<^verbatim>\<open>null\<close>). Up to and including that read no write call is issued. If the
  state token or the mutation token is missing, or if no delivery slot is selected, the
  handler returns the precondition error as a value and issues no further call at all. If the
  preconditions hold and the answer to the start request has no order identifier, the handler
  returns the step-failure error carrying that raw answer, and the start request is the only
  call issued after the cart read: no payment initiation, no confirmation.
\<close>

theorem checkout_fails_safely:
  assumes "getCart w s = (Inr cart, s1)" and "cart \<noteq> JUndefined" and "cart \<noteq> JNull"
  shows "filter isWrite (issued s1) = filter isWrite (issued s) \<and>
    (optProp cart ''state_token'' = JUndefined \<or> optProp cart ''mts'' = JUndefined \<longrightarrow>
       picnic_checkout w s = (Inr (JObj [(''error'', JStr noTokensMessage)]), s1)) \<and>
    (\<not> truthy (optProp (optProp cart ''selected_slot'') ''slot_id'') \<longrightarrow>
       picnic_checkout w s =
         (Inr (JObj [(''error'',
                 JStr (if truthy (optProp cart ''state_token'') \<and> truthy (optProp cart ''mts'')
                       then noSlotMessage else noTokensMessage))]), s1)) \<and>
    (truthy (optProp cart ''state_token'') \<and> truthy (optProp cart ''mts'') \<and>
     truthy (optProp (optProp cart ''selected_slot'') ''slot_id'') \<and>
     sendRequest w (issued s1) ''POST'' ''/cart/checkout/start''
       (checkoutBody (optProp cart ''mts'') (optProp cart ''state_token'')) None = Inr startResult \<and>
     startResult \<noteq> JUndefined \<and> startResult \<noteq> JNull \<and>
     \<not> truthy (optProp startResult ''order_id'') \<longrightarrow>
       picnic_checkout w s =
         (Inr (JObj [(''error'', JStr startFailedMessage), (''details'', startResult)]),
          s1\<lparr>issued := issued s1 @
                [SendRequest ''POST'' ''/cart/checkout/start''
                   (checkoutBody (optProp cart ''mts'') (optProp cart ''state_token'')) None]\<rparr>))"
proof (intro conjI impI)
  show "filter isWrite (issued s1) = filter isWrite (issued s)"
    using assms(1) by (rule getCart_writes)
next
  assume "optProp cart ''state_token'' = JUndefined \<or> optProp cart ''mts'' = JUndefined"
  then have "\<not> truthy (optProp cart ''state_token'') \<or> \<not> truthy (optProp cart ''mts'')"
    by auto
  with assms show "picnic_checkout w s = (Inr (JObj [(''error'', JStr noTokensMessage)]), s1)"
    by (rule checkout_no_tokens)
next
  assume "\<not> truthy (optProp (optProp cart ''selected_slot'') ''slot_id'')"
  with assms show "picnic_checkout w s =
         (Inr (JObj [(''error'',
                 JStr (if truthy (optProp cart ''state_token'') \<and> truthy (optProp cart ''mts'')
                       then noSlotMessage else noTokensMessage))]), s1)"
    by (auto simp: checkout_no_tokens checkout_no_slot)
next
  assume a: "truthy (optProp cart ''state_token'') \<and> truthy (optProp cart ''mts'') \<and>
     truthy (optProp (optProp cart ''selected_slot'') ''slot_id'') \<and>
     sendRequest w (issued s1) ''POST'' ''/cart/checkout/start''
       (checkoutBody (optProp cart ''mts'') (optProp cart ''state_token'')) None = Inr startResult \<and>
     startResult \<noteq> JUndefined \<and> startResult \<noteq> JNull \<and>
     \<not> truthy (optProp startResult ''order_id'')"
  then have "picnic_checkout w s =
      startCheckout w (optProp cart ''mts'') (optProp cart ''state_token'') s1"
    using assms(1) by (simp add: checkout_reaches_start)
  with a show "picnic_checkout w s =
         (Inr (JObj [(''error'', JStr startFailedMessage), (''details'', startResult)]),
          s1\<lparr>issued := issued s1 @
                [SendRequest ''POST'' ''/cart/checkout/start''
                   (checkoutBody (optProp cart ''mts'') (optProp cart ''state_token'')) None]\<rparr>)"
    by (simp add: start_no_order_id)
qed

lemma getCart_example:
  "getCart (exampleWorld cart respond add) initialState =
     (Inr cart, initialState\<lparr>issued := [GetPicnicClient, GetPicnicClient, GetShoppingCart]\<rparr>)"
  by (simp add: getCart_def getClient_def await_def ensureClientInitialized_def client_get_def perform_def
      client_getShoppingCart_def exampleWorld_def initialState_def)

theorem checkout_fails_safely_witness:
  "picnic_checkout (exampleWorld (JObj []) (\<lambda>p. Inr JNull) (\<lambda>p. Inr JNull)) initialState =
     (Inr (JObj [(''error'', JStr noTokensMessage)]),
      initialState\<lparr>issued := [GetPicnicClient, GetPicnicClient, GetShoppingCart]\<rparr>) \<and>
   picnic_checkout
     (exampleWorld (JObj [(''mts'', JNum (Finite 7)), (''state_token'', JStr ''st'')])
        (\<lambda>p. Inr JNull) (\<lambda>p. Inr JNull)) initialState =
     (Inr (JObj [(''error'', JStr noSlotMessage)]),
      initialState\<lparr>issued := [GetPicnicClient, GetPicnicClient, GetShoppingCart]\<rparr>) \<and>
   picnic_checkout
     (exampleWorld (JObj [(''mts'', JNum (Finite 7)), (''state_token'', JStr ''st''),
                          (''selected_slot'', JObj [(''slot_id'', JStr ''s1'')])])
        (\<lambda>p. Inr (JObj [(''message'', JStr ''busy'')])) (\<lambda>p. Inr JNull)) initialState =
     (Inr (JObj [(''error'', JStr startFailedMessage),
                 (''details'', JObj [(''message'', JStr ''busy'')])]),
      initialState\<lparr>issued := [GetPicnicClient, GetPicnicClient, GetShoppingCart,
         SendRequest ''POST'' ''/cart/checkout/start''
           (checkoutBody (JNum (Finite 7)) (JStr ''st'')) None]\<rparr>)"
  using checkout_fails_safely [OF getCart_example [of "JObj []"]]
    checkout_fails_safely [OF getCart_example
      [of "JObj [(''mts'', JNum (Finite 7)), (''state_token'', JStr ''st'')]"]]
    checkout_fails_safely [OF getCart_example
      [of "JObj [(''mts'', JNum (Finite 7)), (''state_token'', JStr ''st''),
                 (''selected_slot'', JObj [(''slot_id'', JStr ''s1'')])]"
          "\<lambda>p. Inr (JObj [(''message'', JStr ''busy'')])"],
      where startResult = "JObj [(''message'', JStr ''busy'')]"]
  by (simp add: exampleWorld_def)

text \<open>
  Claim C10. The token check tests falsiness, not presence: a cart whose \<^verbatim>\<open>mts\<close> is the
  number 0, or whose \<^verbatim>\<open>state_token\<close> is the empty string, gets the same precondition error as
  a cart without the field, with no call after the cart read and no write call at all.
\<close>

theorem checkout_tokens_by_falsiness:
  assumes "getCart w s = (Inr cart, s1)"
    and "optProp cart ''mts'' = JNum (Finite 0) \<or> optProp cart ''state_token'' = JStr []"
  shows "picnic_checkout w s = (Inr (JObj [(''error'', JStr noTokensMessage)]), s1) \<and>
         filter isWrite (issued s1) = filter isWrite (issued s)"
proof -
  from assms(2) have "cart \<noteq> JUndefined" "cart \<noteq> JNull"
    by auto
  moreover from assms(2)
  have "\<not> truthy (optProp cart ''state_token'') \<or> \<not> truthy (optProp cart ''mts'')"
    by auto
  ultimately show ?thesis
    using assms(1) by (simp add: checkout_no_tokens getCart_writes)
qed

theorem checkout_tokens_by_falsiness_witness:
  "picnic_checkout
     (exampleWorld (JObj [(''mts'', JNum (Finite 0)), (''state_token'', JStr ''st''),
                          (''selected_slot'', JObj [(''slot_id'', JStr ''s1'')])])
        (\<lambda>p. Inr JNull) (\<lambda>p. Inr JNull)) initialState =
     (Inr (JObj [(''error'', JStr noTokensMessage)]),
      initialState\<lparr>issued := [GetPicnicClient, GetPicnicClient, GetShoppingCart]\<rparr>) \<and>
   picnic_checkout
     (exampleWorld (JObj [(''mts'', JNum (Finite 7)), (''state_token'', JStr []),
                          (''selected_slot'', JObj [(''slot_id'', JStr ''s1'')])])
        (\<lambda>p. Inr JNull) (\<lambda>p. Inr JNull)) initialState =
     (Inr (JObj [(''error'', JStr noTokensMessage)]),
      initialState\<lparr>issued := [GetPicnicClient, GetPicnicClient, GetShoppingCart]\<rparr>) \<and>
   filter isWrite [GetPicnicClient, GetPicnicClient, GetShoppingCart] = []"
  using checkout_tokens_by_falsiness [OF getCart_example
      [of "JObj [(''mts'', JNum (Finite 0)), (''state_token'', JStr ''st''),
                 (''selected_slot'', JObj [(''slot_id'', JStr ''s1'')])]"]]
    checkout_tokens_by_falsiness [OF getCart_example
      [of "JObj [(''mts'', JNum (Finite 7)), (''state_token'', JStr []),
                 (''selected_slot'', JObj [(''slot_id'', JStr ''s1'')])]"]]
  by (simp add: initialState_def)

lemma slice_0: "0 \<le> n \<Longrightarrow> slice 0 n xs = take (nat n) xs"
  by (auto simp: slice_def Let_def min_def)

lemma replace_absent: "c \<notin> set xs \<Longrightarrow> replace c r (xs @ ys) = xs @ replace c r ys"
  by (induction xs) auto

lemma displayTime_iso:
  assumes "16 \<le> length t" "t ! 10 = CHR ''T''" "CHR ''T'' \<notin> set (take 10 t)"
  shows "replace CHR ''T'' '' '' (take 16 t) = take 10 t @ '' '' @ take 5 (drop 11 t)"
proof -
  have "take 16 t = take (10 + 6) t"
    by simp
  also have "\<dots> = take 10 t @ take 6 (drop 10 t)"
    by (rule take_add)
  also have "drop 10 t = t ! 10 # drop (Suc 10) t"
    using assms(1) by (intro Cons_nth_drop_Suc [symmetric]) simp
  also have "take 6 (t ! 10 # drop (Suc 10) t) = t ! 10 # take 5 (drop 11 t)"
    by (simp add: take_Cons')
  finally have "take 16 t = take 10 t @ t ! 10 # take 5 (drop 11 t)" .
  then show ?thesis
    using assms(2,3) by (simp add: replace_absent)
qed

lemma delivery_window_strings:
  assumes "optProp slot ''window_start'' = JStr ws" "optProp slot ''window_end'' = JStr we"
  shows "delivery_window slot s =
           (Inr (JObj [(''start'', JStr (replace CHR ''T'' '' '' (take 16 ws))),
                       (''end'', JStr (replace CHR ''T'' '' '' (take 16 we)))]), s)"
proof -
  from assms(1) have "truthy slot"
    by (cases slot) auto
  then show ?thesis
    using assms by (simp add: delivery_window_def await_def js_def resolve_def slice_0)
qed

lemma confirmOrder_result:
  assumes "sendRequest w (issued s) ''POST'' (confirmPath w orderId) (JObj []) None
             = Inr confirmResult"
    and "optProp (optProp confirmResult ''delivery_slot'') ''window_start'' = JStr ws"
    and "optProp (optProp confirmResult ''delivery_slot'') ''window_end'' = JStr we"
  shows "confirmOrder w orderId s =
     (Inr (JObj [(''order_id'', optProp confirmResult ''order_id''),
                 (''total_price'', optProp confirmResult ''total_price''),
                 (''total_count'', optProp confirmResult ''total_count''),
                 (''delivery_window'',
                    JObj [(''start'', JStr (replace CHR ''T'' '' '' (take 16 ws))),
                          (''end'', JStr (replace CHR ''T'' '' '' (take 16 we)))])]),
      s\<lparr>issued := issued s @ [confirmCall w orderId]\<rparr>)"
proof -
  from assms(2) have "optProp confirmResult ''delivery_slot'' \<noteq> JUndefined"
    by auto
  then have "confirmResult \<noteq> JUndefined" "confirmResult \<noteq> JNull"
    by auto
  then show ?thesis
    using assms
    by (simp add: confirmOrder_def await_def js_def resolve_def getProp_optProp
        client_sendRequest_def perform_def delivery_window_strings)
qed

lemma startCheckout_proceeds:
  assumes "sendRequest w (issued s) ''POST'' ''/cart/checkout/start'' (checkoutBody mts st) None
             = Inr startResult"
    and "truthy (optProp startResult ''order_id'')"
    and "sendRequest w (issued s @ [startCall mts st]) ''POST'' ''/cart/checkout/initiate_payment''
           (paymentBody (optProp startResult ''order_id'')) None = Inr payment"
  shows "startCheckout w mts st s =
           confirmOrder w (optProp startResult ''order_id'')
             (s\<lparr>issued := issued s @ [startCall mts st,
                                         paymentCall (optProp startResult ''order_id'')]\<rparr>)"
  using assms
  by (simp add: startCheckout_def await_def js_def resolve_def truthy_optProp
      client_sendRequest_def perform_def)

text \<open>
  Claim C8. On the happy path (tokens and slot present, the start answer carries an order
  identifier, payment initiation and confirmation return) the result reports the
  confirmation's \<^verbatim>\<open>order_id\<close>, \<^verbatim>\<open>total_price\<close> and \<^verbatim>\<open>total_count\<close> unchanged, and the delivery
  window with each timestamp cut to its first 16 characters and the first \<^verbatim>\<open>T\<close> replaced by
  a space. For a timestamp with \<^verbatim>\<open>T\<close> at index 10 and not before (the ISO-8601 form) that
  is the date, a space and \<^verbatim>\<open>HH:MM\<close>.
\<close>

theorem checkout_happy_path:
  assumes "getCart w s = (Inr cart, s1)"
    and "truthy (optProp cart ''state_token'')" and "truthy (optProp cart ''mts'')"
    and "truthy (optProp (optProp cart ''selected_slot'') ''slot_id'')"
    and "sendRequest w (issued s1) ''POST'' ''/cart/checkout/start''
           (checkoutBody (optProp cart ''mts'') (optProp cart ''state_token'')) None
           = Inr startResult"
    and "truthy (optProp startResult ''order_id'')"
    and "sendRequest w
           (issued s1 @ [startCall (optProp cart ''mts'') (optProp cart ''state_token'')])
           ''POST'' ''/cart/checkout/initiate_payment''
           (paymentBody (optProp startResult ''order_id'')) None = Inr payment"
    and "sendRequest w
           (issued s1 @ [startCall (optProp cart ''mts'') (optProp cart ''state_token''),
                         paymentCall (optProp startResult ''order_id'')])
           ''POST'' (confirmPath w (optProp startResult ''order_id'')) (JObj []) None
           = Inr confirmResult"
    and "optProp (optProp confirmResult ''delivery_slot'') ''window_start'' = JStr ws"
    and "optProp (optProp confirmResult ''delivery_slot'') ''window_end'' = JStr we"
  shows "picnic_checkout w s =
     (Inr (JObj [(''order_id'', optProp confirmResult ''order_id''),
                 (''total_price'', optProp confirmResult ''total_price''),
                 (''total_count'', optProp confirmResult ''total_count''),
                 (''delivery_window'',
                    JObj [(''start'', JStr (replace CHR ''T'' '' '' (take 16 ws))),
                          (''end'', JStr (replace CHR ''T'' '' '' (take 16 we)))])]),
      s1\<lparr>issued := issued s1 @
             [startCall (optProp cart ''mts'') (optProp cart ''state_token''),
              paymentCall (optProp startResult ''order_id''),
              confirmCall w (optProp startResult ''order_id'')]\<rparr>) \<and>
    (\<forall>t. 16 \<le> length t \<and> t ! 10 = CHR ''T'' \<and> CHR ''T'' \<notin> set (take 10 t) \<longrightarrow>
       replace CHR ''T'' '' '' (take 16 t) = take 10 t @ '' '' @ take 5 (drop 11 t))"
proof -
  have "picnic_checkout w s =
      startCheckout w (optProp cart ''mts'') (optProp cart ''state_token'') s1"
    using assms(1-4) by (rule checkout_reaches_start)
  also have "\<dots> = confirmOrder w (optProp startResult ''order_id'')
      (s1\<lparr>issued := issued s1 @ [startCall (optProp cart ''mts'') (optProp cart ''state_token''),
                                   paymentCall (optProp startResult ''order_id'')]\<rparr>)"
    using assms(5-7) by (rule startCheckout_proceeds)
  also have "\<dots> = (Inr (JObj [(''order_id'', optProp confirmResult ''order_id''),
                 (''total_price'', optProp confirmResult ''total_price''),
                 (''total_count'', optProp confirmResult ''total_count''),
                 (''delivery_window'',
                    JObj [(''start'', JStr (replace CHR ''T'' '' '' (take 16 ws))),
                          (''end'', JStr (replace CHR ''T'' '' '' (take 16 we)))])]),
      s1\<lparr>issued := issued s1 @
             [startCall (optProp cart ''mts'') (optProp cart ''state_token''),
              paymentCall (optProp startResult ''order_id''),
              confirmCall w (optProp startResult ''order_id'')]\<rparr>)"
    using assms(8-10) by (simp add: confirmOrder_result)
  finally show ?thesis
    by (simp add: displayTime_iso)
qed

theorem checkout_happy_path_witness:
  "picnic_checkout (exampleWorld exampleCart exampleRespond (\<lambda>p. Inr JNull)) initialState =
     (Inr (JObj [(''order_id'', JStr ''O1''), (''total_price'', JNum (Finite 23.5)),
                 (''total_count'', JNum (Finite 7)),
                 (''delivery_window'', JObj [(''start'', JStr ''2024-01-01 10:00''),
                                             (''end'', JStr ''2024-01-01 11:00'')])]),
      initialState\<lparr>issued := [GetPicnicClient, GetPicnicClient, GetShoppingCart,
         startCall (JNum (Finite 7)) (JStr ''st''), paymentCall (JStr ''O1''),
         SendRequest ''POST'' ''/cart/checkout/order/O1/confirm'' (JObj []) None]\<rparr>)"
  using checkout_happy_path [OF getCart_example [of exampleCart exampleRespond],
      where startResult = "JObj [(''order_id'', JStr ''O1'')]"
        and confirmResult = exampleConfirmation and payment = "JObj []"
        and ws = "''2024-01-01T10:00:00Z''" and we = "''2024-01-01T11:00:00Z''"]
  by (simp add: exampleWorld_def exampleCart_def exampleRespond_def exampleConfirmation_def
      confirmPath_def take_Cons')

section \<open>Properties of the pagination\<close>

lemma take_drop_nth: "take n (drop k xs) = map ((!) xs) [k..<min (k + n) (length xs)]"
proof (rule nth_equalityI)
  show "length (take n (drop k xs)) = length (map ((!) xs) [k..<min (k + n) (length xs)])"
    by auto
next
  fix i assume "i < length (take n (drop k xs))"
  then show "take n (drop k xs) ! i = map ((!) xs) [k..<min (k + n) (length xs)] ! i"
    by (auto simp: add.commute)
qed

lemma slice_page:
  assumes "0 \<le> ofs" "0 \<le> lmt"
  shows "slice ofs (ofs + lmt) xs = map ((!) xs) [nat ofs..<min (nat ofs + nat lmt) (length xs)]"
proof -
  have "slice ofs (ofs + lmt) xs = take (nat lmt) (drop (nat ofs) xs)"
    using assms by (auto simp: slice_def Let_def min_def)
  then show ?thesis
    by (simp add: take_drop_nth)
qed

lemma toInteger_of_int: "toInteger (of_int x) = x"
  by (simp add: toInteger_def)

lemma mapE_total: "\<forall>x\<in>set xs. f x = Inr (g x) \<Longrightarrow> mapE f xs = Inr (map g xs)"
  by (induction xs) auto

lemma filterProduct_defined: "p \<noteq> JUndefined \<Longrightarrow> p \<noteq> JNull \<Longrightarrow> filterProduct p = Inr (filtered p)"
  by (cases p) auto

lemma deliveries_page:
  assumes "allDeliveries w f s = (Inr xs, s1)" "0 \<le> ofs" "1 \<le> lmt"
  shows "picnic_get_deliveries w f (of_int lmt) (of_int ofs) s =
      (Inr (JObj [(''deliveries'',
                     JArr (map ((!) xs) [nat ofs..<min (nat ofs + nat lmt) (length xs)])),
                  (''pagination'',
                     JObj [(''offset'', num (of_int ofs)), (''limit'', num (of_int lmt)),
                           (''returned'',
                              num (of_nat (min (nat ofs + nat lmt) (length xs) - nat ofs))),
                           (''total'', num (of_nat (length xs))),
                           (''hasMore'', JBool (ofs + lmt < int (length xs)))])]), s1)"
proof -
  have "(of_int ofs + of_int lmt < (of_nat (length xs) :: rat)) = (ofs + lmt < int (length xs))"
    by (metis of_int_add of_int_less_iff of_int_of_nat_eq)
  moreover have "toInteger (of_int ofs + of_int lmt) = ofs + lmt"
    by (metis of_int_add toInteger_of_int)
  moreover have "orDefault (of_int ofs) 0 = of_int ofs" "orDefault (of_int lmt) 10 = of_int lmt"
    using assms(3) by (auto simp: orDefault_def)
  ultimately show ?thesis
    using assms
    by (simp add: picnic_get_deliveries_def await_def resolve_def Let_def
        toInteger_of_int slice_page pagination_def)
qed

lemma search_page:
  assumes "allResults w q s = (Inr xs, s1)" "0 \<le> ofs" "1 \<le> lmt"
    and "\<forall>p\<in>set xs. p \<noteq> JUndefined \<and> p \<noteq> JNull"
  shows "picnic_search w q (of_int lmt) (of_int ofs) s =
      (Inr (JObj [(''query'', JStr q),
                  (''results'',
                     JArr (map (\<lambda>i. filtered (xs ! i))
                             [nat ofs..<min (nat ofs + nat lmt) (length xs)])),
                  (''pagination'',
                     JObj [(''offset'', num (of_int ofs)), (''limit'', num (of_int lmt)),
                           (''returned'',
                              num (of_nat (min (nat ofs + nat lmt) (length xs) - nat ofs))),
                           (''total'', num (of_nat (length xs))),
                           (''hasMore'', JBool (ofs + lmt < int (length xs)))])]), s1)"
proof -
  have "(of_int ofs + of_int lmt < (of_nat (length xs) :: rat)) = (ofs + lmt < int (length xs))"
    by (metis of_int_add of_int_less_iff of_int_of_nat_eq)
  moreover have "toInteger (of_int ofs + of_int lmt) = ofs + lmt"
    by (metis of_int_add toInteger_of_int)
  moreover have "mapE filterProduct (map ((!) xs) [nat ofs..<min (nat ofs + nat lmt) (length xs)])
      = Inr (map filtered (map ((!) xs) [nat ofs..<min (nat ofs + nat lmt) (length xs)]))"
    using assms(4) by (intro mapE_total) (auto simp: filterProduct_defined)
  moreover have "orDefault (of_int ofs) 0 = of_int ofs" "orDefault (of_int lmt) 5 = of_int lmt"
    using assms(3) by (auto simp: orDefault_def)
  ultimately show ?thesis
    using assms(1-3)
    by (simp add: picnic_search_def await_def resolve_def js_def Let_def
        toInteger_of_int slice_page pagination_def comp_def)
qed

text \<open>
  Claim C9. For an integral offset of at least 0 and an integral limit of at least 1, both
  paginating handlers return the elements at the indices from the offset up to, and not
  including, the smaller of offset + limit and the total (the search handler returns their
  filtered views, for products that are not \<^verbatim>\<open>null\<close>), and report
  \<^verbatim>\<open>hasMore\<close> = (offset + limit < total).
\<close>

theorem pagination_slicing:
  assumes "0 \<le> ofs" and "1 \<le> lmt"
  shows "(allDeliveries w f s = (Inr xs, s1) \<longrightarrow>
     picnic_get_deliveries w f (of_int lmt) (of_int ofs) s =
      (Inr (JObj [(''deliveries'',
                     JArr (map ((!) xs) [nat ofs..<min (nat ofs + nat lmt) (length xs)])),
                  (''pagination'',
                     JObj [(''offset'', num (of_int ofs)), (''limit'', num (of_int lmt)),
                           (''returned'',
                              num (of_nat (min (nat ofs + nat lmt) (length xs) - nat ofs))),
                           (''total'', num (of_nat (length xs))),
                           (''hasMore'', JBool (ofs + lmt < int (length xs)))])]), s1)) \<and>
    (allResults w q s = (Inr xs, s1) \<and> (\<forall>p\<in>set xs. p \<noteq> JUndefined \<and> p \<noteq> JNull) \<longrightarrow>
     picnic_search w q (of_int lmt) (of_int ofs) s =
      (Inr (JObj [(''query'', JStr q),
                  (''results'',
                     JArr (map (\<lambda>i. filtered (xs ! i))
                             [nat ofs..<min (nat ofs + nat lmt) (length xs)])),
                  (''pagination'',
                     JObj [(''offset'', num (of_int ofs)), (''limit'', num (of_int lmt)),
                           (''returned'',
                              num (of_nat (min (nat ofs + nat lmt) (length xs) - nat ofs))),
                           (''total'', num (of_nat (length xs))),
                           (''hasMore'', JBool (ofs + lmt < int (length xs)))])]), s1))"
  using assms by (simp add: deliveries_page search_page)

lemma allDeliveries_example:
  "allDeliveries (exampleWorld cart respond add) f initialState =
     (Inr exampleList,
      initialState\<lparr>issued := [GetPicnicClient, GetPicnicClient, GetDeliveries f]\<rparr>)"
  by (simp add: allDeliveries_def getClient_def await_def ensureClientInitialized_def client_get_def perform_def
      client_getDeliveries_def exampleWorld_def initialState_def)

lemma allResults_example:
  "allResults (exampleWorld cart respond add) q initialState =
     (Inr exampleList,
      initialState\<lparr>issued := [GetPicnicClient, GetPicnicClient, Search q]\<rparr>)"
  by (simp add: allResults_def getClient_def await_def ensureClientInitialized_def client_get_def perform_def
      client_search_def exampleWorld_def initialState_def)

lemma length_exampleList: "length exampleList = 23"
  by (simp add: exampleList_def)

lemma exampleList_page2: "map ((!) exampleList) [10..<20] = map (\<lambda>i. JObj [(''id'', num (of_nat i))]) [10..<20]"
  by (simp add: exampleList_def)

lemma exampleList_page3: "map ((!) exampleList) [20..<23] = map (\<lambda>i. JObj [(''id'', num (of_nat i))]) [20..<23]"
  by (simp add: exampleList_def)

theorem pagination_slicing_witness:
  "picnic_get_deliveries (exampleWorld JNull (\<lambda>p. Inr JNull) (\<lambda>p. Inr JNull)) [] 10 10 initialState =
     (Inr (JObj [(''deliveries'', JArr (map (\<lambda>i. JObj [(''id'', num (of_nat i))]) [10..<20])),
                 (''pagination'',
                    JObj [(''offset'', num 10), (''limit'', num 10), (''returned'', num 10),
                          (''total'', num 23), (''hasMore'', JBool True)])]),
      initialState\<lparr>issued := [GetPicnicClient, GetPicnicClient, GetDeliveries []]\<rparr>) \<and>
   picnic_get_deliveries (exampleWorld JNull (\<lambda>p. Inr JNull) (\<lambda>p. Inr JNull)) [] 10 20 initialState =
     (Inr (JObj [(''deliveries'', JArr (map (\<lambda>i. JObj [(''id'', num (of_nat i))]) [20..<23])),
                 (''pagination'',
                    JObj [(''offset'', num 20), (''limit'', num 10), (''returned'', num 3),
                          (''total'', num 23), (''hasMore'', JBool False)])]),
      initialState\<lparr>issued := [GetPicnicClient, GetPicnicClient, GetDeliveries []]\<rparr>)"
  using pagination_slicing [where ofs = 10 and lmt = 10 and xs = exampleList and s = initialState
      and w = "exampleWorld JNull (\<lambda>p. Inr JNull) (\<lambda>p. Inr JNull)" and f = "[]"
      and ?s1.0 = "initialState\<lparr>issued := [GetPicnicClient, GetPicnicClient, GetDeliveries []]\<rparr>"]
    pagination_slicing [where ofs = 20 and lmt = 10 and xs = exampleList and s = initialState
      and w = "exampleWorld JNull (\<lambda>p. Inr JNull) (\<lambda>p. Inr JNull)" and f = "[]"
      and ?s1.0 = "initialState\<lparr>issued := [GetPicnicClient, GetPicnicClient, GetDeliveries []]\<rparr>"]
  by (simp add: allDeliveries_example length_exampleList exampleList_def)

section \<open>Properties of the tree search\<close>

lemma forEach_recurse_concat_if:
  assumes "\<And>x acc. x \<in> set xs \<Longrightarrow> recurse x acc = acc @ recurse x []"
  shows "forEach_recurse xs acc = acc @ concat (map (\<lambda>x. recurse x []) xs)"
  using assms
proof (induction xs arbitrary: acc)
  case (Cons x xs)
  have step: "recurse x acc = acc @ recurse x []"
    by (rule Cons.prems) simp
  have "forEach_recurse (x # xs) acc = forEach_recurse xs (recurse x acc)"
    by simp
  also have "\<dots> = recurse x acc @ concat (map (\<lambda>x. recurse x []) xs)"
    by (rule Cons.IH) (rule Cons.prems, simp)
  also have "\<dots> = (acc @ recurse x []) @ concat (map (\<lambda>x. recurse x []) xs)"
    by (rule arg_cong [OF step])
  finally show ?case
    by simp
qed simp

lemma recurse_append: "recurse v acc = acc @ recurse v []"
proof (induction v arbitrary: acc)
  case (JArr xs)
  have "forEach_recurse xs acc = acc @ concat (map (\<lambda>x. recurse x []) xs)" for acc
    by (rule forEach_recurse_concat_if) (rule JArr)
  then have "forEach_recurse xs acc = acc @ forEach_recurse xs []"
    by (metis append_Nil)
  then show ?case
    by simp
next
  case (JObj kvs)
  have "recurse x acc = acc @ recurse x []" if "x \<in> set (map snd kvs)" for x acc
  proof -
    from that obtain k where "(k, x) \<in> set kvs"
      by auto
    then show ?thesis
      by (rule JObj) simp
  qed
  then have "forEach_recurse (map snd kvs) acc = acc @ concat (map (\<lambda>x. recurse x []) (map snd kvs))"
    for acc
    by (rule forEach_recurse_concat_if)
  then have "forEach_recurse (map snd kvs) acc = acc @ forEach_recurse (map snd kvs) []"
    by (metis append_Nil)
  then show ?case
    by simp
qed simp_all

lemma forEach_recurse_concat: "forEach_recurse xs acc = acc @ concat (map (\<lambda>x. recurse x []) xs)"
  by (rule forEach_recurse_concat_if) (rule recurse_append)

lemma recurse_children:
  "recurse v [] = (if isRecipeShaped v then [v] else concat (map (\<lambda>c. recurse c []) (children v)))"
  by (cases v) (simp_all add: forEach_recurse_concat isRecipeShaped_def)

lemma extractRecipes_paths: "map (nodeAt v) (pathsOf v) = map Some (recurse v [])"
proof (induction v rule: pathsOf.induct)
  case (1 v)
  show ?case
  proof (cases "isRecipeShaped v")
    case True
    then show ?thesis
      by (simp add: pathsOf.simps [of v] recurse_children [of v])
  next
    case False
    have "map (nodeAt v) (map ((#) j) (pathsOf (children v ! j))) = map Some (recurse (children v ! j) [])"
      if "j < length (children v)" for j
      using that 1 [OF False, of j] by (simp add: comp_def)
    then have "map (\<lambda>j. map (nodeAt v) (map ((#) j) (pathsOf (children v ! j))))
                 [0..<length (children v)] =
               map (\<lambda>j. map Some (recurse (children v ! j) [])) [0..<length (children v)]"
      by (intro map_cong) auto
    then have "map (nodeAt v) (pathsOf v) =
        concat (map (\<lambda>j. map Some (recurse (children v ! j) [])) [0..<length (children v)])"
      using False by (simp only: pathsOf.simps [of v] if_False map_concat map_map comp_def)
    also have "\<dots> = map Some (concat (map (\<lambda>c. recurse c []) (map ((!) (children v)) [0..<length (children v)])))"
      by (simp add: map_concat comp_def)
    also have "map ((!) (children v)) [0..<length (children v)] = children v"
      by (rule map_nth)
    finally show ?thesis
      using False by (simp add: recurse_children [of v])
  qed
qed

lemma pathsOf_match: "p \<in> set (pathsOf v) \<Longrightarrow> matchAt v p"
proof (induction v arbitrary: p rule: pathsOf.induct)
  case (1 v)
  show ?case
  proof (cases "isRecipeShaped v")
    case True
    with 1 show ?thesis
      by (simp add: pathsOf.simps [of v] matchAt_def)
  next
    case False
    with 1(2) obtain j q where j: "j < length (children v)" "q \<in> set (pathsOf (children v ! j))" "p = j # q"
      by (auto simp: pathsOf.simps [of v])
    with 1(1) [OF False] have "matchAt (children v ! j) q"
      by simp
    with j show ?thesis
      by (simp add: matchAt_def)
  qed
qed

lemma pathsOf_covers: "matchAt v q \<Longrightarrow> \<exists>p\<in>set (pathsOf v). prefix p q"
proof (induction v arbitrary: q rule: pathsOf.induct)
  case (1 v)
  show ?case
  proof (cases "isRecipeShaped v")
    case True
    then show ?thesis
      by (simp add: pathsOf.simps [of v])
  next
    case False
    with 1(2) have "q \<noteq> []"
      by (auto simp: matchAt_def)
    then obtain j q' where q: "q = j # q'"
      by (cases q) auto
    with 1(2) have j: "j < length (children v)" and m: "matchAt (children v ! j) q'"
      by (auto simp: matchAt_def split: if_splits)
    from j have "j \<in> set [0..<length (children v)]"
      by simp
    from 1(1) [OF False this m] obtain p where p: "p \<in> set (pathsOf (children v ! j))" "prefix p q'"
      by blast
    from p(1) j False have "j # p \<in> set (pathsOf v)"
      by (auto simp: pathsOf.simps [of v])
    moreover from p(2) q have "prefix (j # p) q"
      by simp
    ultimately show ?thesis
      by blast
  qed
qed

lemma pathsOf_antichain:
  "p \<in> set (pathsOf v) \<Longrightarrow> q \<in> set (pathsOf v) \<Longrightarrow> prefix p q \<Longrightarrow> p = q"
proof (induction v arbitrary: p q rule: pathsOf.induct)
  case (1 v)
  show ?case
  proof (cases "isRecipeShaped v")
    case True
    with 1(2,3) show ?thesis
      by (simp add: pathsOf.simps [of v])
  next
    case False
    with 1(2) obtain j p' where p: "j < length (children v)" "p' \<in> set (pathsOf (children v ! j))" "p = j # p'"
      by (auto simp: pathsOf.simps [of v])
    from False 1(3) obtain k q' where q: "k < length (children v)" "q' \<in> set (pathsOf (children v ! k))" "q = k # q'"
      by (auto simp: pathsOf.simps [of v])
    from 1(4) p(3) q(3) have jk: "j = k" and pre: "prefix p' q'"
      by simp_all
    from p(1) have "j \<in> set [0..<length (children v)]"
      by simp
    from 1(1) [OF False this p(2) _ pre] q(2) jk have "p' = q'"
      by simp
    with p(3) q(3) jk show ?thesis
      by simp
  qed
qed

lemma sorted_wrt_blocks:
  fixes js :: "nat list" and f :: "nat \<Rightarrow> nat list list"
  assumes "\<And>j. j \<in> set js \<Longrightarrow> sorted_wrt (<) (f j)"
    and "sorted_wrt (<) js"
  shows "sorted_wrt (<) (concat (map (\<lambda>j. map ((#) j) (f j)) js))"
  using assms
proof (induction js)
  case (Cons j js)
  have "sorted_wrt (<) (f j)"
    using Cons.prems(1) by simp
  then have "sorted_wrt (<) (map ((#) j) (f j))"
    by (simp add: sorted_wrt_map)
  moreover have "sorted_wrt (<) (concat (map (\<lambda>j. map ((#) j) (f j)) js))"
    using Cons by simp
  moreover have "j # x < k # y" if "k \<in> set js" for x y :: "nat list" and k
  proof -
    from that Cons.prems(2) have "j < k"
      by simp
    then show ?thesis
      by simp
  qed
  ultimately show ?case
    by (auto simp: sorted_wrt_append)
qed simp

lemma pathsOf_sorted: "sorted_wrt (<) (pathsOf v)"
proof (induction v rule: pathsOf.induct)
  case (1 v)
  show ?case
  proof (cases "isRecipeShaped v")
    case True
    then show ?thesis
      by (simp add: pathsOf.simps [of v])
  next
    case False
    have "sorted_wrt (<) (concat (map (\<lambda>j. map ((#) j) (pathsOf (children v ! j))) [0..<length (children v)]))"
    proof (rule sorted_wrt_blocks)
      show "sorted_wrt (<) [0..<length (children v)]"
        by simp
    next
      fix j assume "j \<in> set [0..<length (children v)]"
      then show "sorted_wrt (<) (pathsOf (children v ! j))"
        by (rule 1 [OF False])
    qed
    with False show ?thesis
      by (simp add: pathsOf.simps [of v])
  qed
qed

lemma pathsOf_outermost:
  "set (pathsOf t) = {p. matchAt t p \<and> (\<forall>q. strict_prefix q p \<longrightarrow> \<not> matchAt t q)}"
proof (intro set_eqI iffI)
  fix p assume p: "p \<in> set (pathsOf t)"
  have "\<not> matchAt t q" if "strict_prefix q p" for q
  proof
    assume "matchAt t q"
    then obtain p' where p': "p' \<in> set (pathsOf t)" "prefix p' q"
      using pathsOf_covers by blast
    from that have qp: "prefix q p" "q \<noteq> p"
      by (simp_all add: strict_prefix_def)
    from p'(2) qp(1) have "prefix p' p"
      by (rule prefix_order.trans)
    with p'(1) p have "p' = p"
      by (rule pathsOf_antichain)
    with p'(2) have "prefix p q"
      by simp
    with qp(1) have "q = p"
      by (rule prefix_order.antisym)
    with qp(2) show False
      by simp
  qed
  with p show "p \<in> {p. matchAt t p \<and> (\<forall>q. strict_prefix q p \<longrightarrow> \<not> matchAt t q)}"
    by (simp add: pathsOf_match)
next
  fix p assume "p \<in> {p. matchAt t p \<and> (\<forall>q. strict_prefix q p \<longrightarrow> \<not> matchAt t q)}"
  then have m: "matchAt t p" and out: "\<And>q. strict_prefix q p \<Longrightarrow> \<not> matchAt t q"
    by simp_all
  from m obtain p' where p': "p' \<in> set (pathsOf t)" "prefix p' p"
    using pathsOf_covers by blast
  have "p' = p"
  proof (rule ccontr)
    assume "p' \<noteq> p"
    with p'(2) have "strict_prefix p' p"
      by (simp add: strict_prefix_def)
    then have "\<not> matchAt t p'"
      by (rule out)
    moreover from p'(1) have "matchAt t p'"
      by (rule pathsOf_match)
    ultimately show False
      by simp
  qed
  with p'(1) show "p \<in> set (pathsOf t)"
    by simp
qed

text \<open>
  Claim C5. The traversal returns the nodes at the outermost recipe-shaped positions of the
  payload, each once and in document order (array elements in order, property values in
  enumeration order): the positions of the returned nodes increase lexicographically, they are
  exactly the matching positions with no matching position above them, and every matching
  position is one of them or lies below one of them. Nothing inside a returned node is
  returned. On a payload without a recipe-shaped node the result is empty; the function is
  total, so it never fails.
\<close>

theorem extractRecipes_outermost:
  "(\<exists>ps. map (nodeAt t) ps = map Some (extractRecipes t) \<and>
         sorted_wrt (<) ps \<and>
         set ps = {p. matchAt t p \<and> (\<forall>q. strict_prefix q p \<longrightarrow> \<not> matchAt t q)} \<and>
         (\<forall>q. matchAt t q \<longrightarrow> (\<exists>p\<in>set ps. prefix p q)) \<and>
         (\<forall>p\<in>set ps. \<forall>q\<in>set ps. prefix p q \<longrightarrow> p = q)) \<and>
   ((\<forall>q. \<not> matchAt t q) \<longrightarrow> extractRecipes t = [])"
proof
  show "\<exists>ps. map (nodeAt t) ps = map Some (extractRecipes t) \<and>
         sorted_wrt (<) ps \<and>
         set ps = {p. matchAt t p \<and> (\<forall>q. strict_prefix q p \<longrightarrow> \<not> matchAt t q)} \<and>
         (\<forall>q. matchAt t q \<longrightarrow> (\<exists>p\<in>set ps. prefix p q)) \<and>
         (\<forall>p\<in>set ps. \<forall>q\<in>set ps. prefix p q \<longrightarrow> p = q)"
  proof (intro exI [of _ "pathsOf t"] conjI)
    show "map (nodeAt t) (pathsOf t) = map Some (extractRecipes t)"
      by (simp add: extractRecipes_def extractRecipes_paths)
    show "sorted_wrt (<) (pathsOf t)"
      by (rule pathsOf_sorted)
    show "set (pathsOf t) = {p. matchAt t p \<and> (\<forall>q. strict_prefix q p \<longrightarrow> \<not> matchAt t q)}"
      by (rule pathsOf_outermost)
    show "\<forall>q. matchAt t q \<longrightarrow> (\<exists>p\<in>set (pathsOf t). prefix p q)"
      by (simp add: pathsOf_covers)
    show "\<forall>p\<in>set (pathsOf t). \<forall>q\<in>set (pathsOf t). prefix p q \<longrightarrow> p = q"
      using pathsOf_antichain by blast
  qed
  show "(\<forall>q. \<not> matchAt t q) \<longrightarrow> extractRecipes t = []"
  proof
    assume none: "\<forall>q. \<not> matchAt t q"
    have "pathsOf t = []"
    proof (cases "pathsOf t")
      case (Cons p ps)
      then have "matchAt t p"
        by (simp add: pathsOf_match)
      with none show ?thesis
        by simp
    qed simp
    then have "map Some (extractRecipes t) = []"
      using extractRecipes_paths [of t] by (simp add: extractRecipes_def)
    then show "extractRecipes t = []"
      by simp
  qed
qed

lemma extractRecipes_examplePayload:
  "extractRecipes examplePayload = [exampleRecipeA, exampleRecipeB]"
  by (simp add: extractRecipes_def examplePayload_def exampleRecipeA_def exampleRecipeB_def
      isRecipeShaped_def)

lemma no_match_scalar: "\<not> matchAt (JStr ''maintenance'') q"
  by (cases q) (simp_all add: matchAt_def isRecipeShaped_def)

theorem extractRecipes_outermost_witness:
  "(\<exists>ps. map (nodeAt examplePayload) ps = map Some [exampleRecipeA, exampleRecipeB] \<and>
         sorted_wrt (<) ps \<and>
         set ps = {p. matchAt examplePayload p \<and>
                      (\<forall>q. strict_prefix q p \<longrightarrow> \<not> matchAt examplePayload q)}) \<and>
   extractRecipes (JStr ''maintenance'') = []"
proof -
  have "\<exists>ps. map (nodeAt examplePayload) ps = map Some (extractRecipes examplePayload) \<and>
         sorted_wrt (<) ps \<and>
         set ps = {p. matchAt examplePayload p \<and>
                      (\<forall>q. strict_prefix q p \<longrightarrow> \<not> matchAt examplePayload q)}"
    using extractRecipes_outermost [of examplePayload] by blast
  then have "\<exists>ps. map (nodeAt examplePayload) ps = map Some [exampleRecipeA, exampleRecipeB] \<and>
         sorted_wrt (<) ps \<and>
         set ps = {p. matchAt examplePayload p \<and>
                      (\<forall>q. strict_prefix q p \<longrightarrow> \<not> matchAt examplePayload q)}"
    by (simp only: extractRecipes_examplePayload)
  moreover have "extractRecipes (JStr ''maintenance'') = []"
    using extractRecipes_outermost [of "JStr ''maintenance''"] no_match_scalar by blast
  ultimately show ?thesis
    by (rule conjI)
qed

section \<open>Termination of the traversal\<close>

lemma forEachG_None: "(\<And>x acc. f x acc = None) \<Longrightarrow> xs \<noteq> [] \<Longrightarrow> forEachG f xs acc = None"
  by (cases xs) simp_all

lemma cyclic_diverges: "recurseG cyclicStore d (Ref 0) acc = None"
proof (induction d arbitrary: acc)
  case (Suc d)
  then show ?case
    by (simp add: cyclicStore_def)
qed simp

text \<open>
  Against claim C6 as stated: on an array that contains itself the traversal exceeds every
  depth bound, so the function has neither a bounded recursion depth nor a guard that cuts
  the cycle.
\<close>

theorem recurse_unbounded_on_cycle: "\<forall>d. recurseG cyclicStore d (Ref 0) [] = None"
  by (simp add: cyclic_diverges)

lemma forEachG_Some:
  "(\<And>x acc. x \<in> set xs \<Longrightarrow> \<exists>r. f x acc = Some r) \<Longrightarrow> \<exists>r. forEachG f xs acc = Some r"
proof (induction xs arbitrary: acc)
  case (Cons x xs)
  from Cons.prems [of x acc] obtain r where "f x acc = Some r"
    by auto
  moreover have "\<exists>r'. forEachG f xs r = Some r'"
    by (rule Cons.IH) (simp add: Cons.prems)
  ultimately show ?case
    by simp
qed simp

lemma ranked_member:
  assumes "ranked h rank" "map_of h a = Some c" "x \<in> set (members c)"
  shows "weight rank x \<le> rank a"
proof -
  from assms(2) have "(a, c) \<in> set h"
    by (rule map_of_SomeD)
  with assms(1) have "list_all (below rank a) (members c)"
    by (auto simp: ranked_def list_all_iff)
  with assms(3) have "below rank a x"
    by (simp add: list_all_iff)
  then show ?thesis
    by (cases x) simp_all
qed

lemma recurseG_terminates:
  assumes "ranked h rank"
  shows "weight rank n < d \<Longrightarrow> \<exists>r. recurseG h d n acc = Some r"
proof (induction d arbitrary: n acc)
  case (Suc d)
  show ?case
  proof (cases n)
    case (Ref a)
    with Suc.prems have a: "rank a < d"
      by simp
    show ?thesis
    proof (cases "map_of h a")
      case None
      with Ref show ?thesis
        by simp
    next
      case (Some c)
      have sub: "\<exists>r. recurseG h d x acc' = Some r" if "x \<in> set (members c)" for x acc'
      proof (rule Suc.IH)
        from assms Some that have "weight rank x \<le> rank a"
          by (rule ranked_member)
        with a show "weight rank x < d"
          by simp
      qed
      show ?thesis
      proof (cases c)
        case (HArr xs)
        with sub have "\<exists>r. forEachG (recurseG h d) xs acc = Some r"
          by (intro forEachG_Some) simp
        with Ref Some HArr show ?thesis
          by simp
      next
        case (HObj kvs)
        with sub have "\<exists>r. forEachG (recurseG h d) (map snd kvs) acc = Some r"
          by (intro forEachG_Some) simp
        with Ref Some HObj show ?thesis
          by simp
      qed
    qed
  qed simp
qed simp

text \<open>
  Claim C6, as amended. The traversal has no depth bound and no visited-set guard. On a
  value graph without reference cycles (a store with a rank that falls along every
  reference, as every parsed JSON document is) it terminates: a recursion depth of the
  root's rank plus 2 is never exceeded. On a graph with a reference cycle it can recurse
  without bound.
\<close>

theorem recurse_terminates_without_cycles:
  assumes "ranked h rank"
  shows "\<exists>r. recurseG h (rank a + 2) (Ref a) [] = Some r"
  using assms by (rule recurseG_terminates) simp

lemma ranked_example: "ranked exampleStore exampleRank"
  by (simp add: ranked_def exampleStore_def exampleRank_def)

theorem recurse_terminates_without_cycles_witness:
  "ranked exampleStore exampleRank \<and> recurseG exampleStore 5 (Ref 0) [] = Some [Ref 2]"
proof -
  have "\<exists>r. recurseG exampleStore (exampleRank 0 + 2) (Ref 0) [] = Some r"
    using ranked_example by (rule recurse_terminates_without_cycles)
  moreover have "exampleRank 0 + 2 = 5"
    by (simp add: exampleRank_def)
  moreover have "recurseG exampleStore 5 (Ref 0) [] = Some [Ref 2]"
    by (simp add: exampleStore_def isRecipeShapedCell_def numeral_eq_Suc)
  ultimately show ?thesis
    using ranked_example by simp
qed

section \<open>Properties of the recipe cache\<close>

lemma getClient_effect:
  "getClient w s = (r, s') \<Longrightarrow>
     \<exists>cs. s' = s\<lparr>issued := issued s @ cs\<rparr> \<and> set cs \<subseteq> {GetPicnicClient, InitializePicnicClient}"
proof -
  assume a: "getClient w s = (r, s')"
  have *: "s\<lparr>issued := issued s @ [c]\<rparr>\<lparr>issued := issued s @ [c] @ cs\<rparr> = s\<lparr>issued := issued s @ (c # cs)\<rparr>"
    for c cs
    by simp
  from a show ?thesis
    unfolding getClient_def await_def ensureClientInitialized_def client_get_def perform_def
    by (auto split: sum.splits prod.splits
        intro: exI [of _ "[GetPicnicClient]"] exI [of _ "[GetPicnicClient, GetPicnicClient]"]
          exI [of _ "[GetPicnicClient, InitializePicnicClient]"]
          exI [of _ "[GetPicnicClient, InitializePicnicClient, GetPicnicClient]"])
qed

lemma getClient_fetches:
  "getClient w s = (r, s') \<Longrightarrow> filter isFetch (issued s') = filter isFetch (issued s)"
proof -
  assume "getClient w s = (r, s')"
  then obtain cs where cs: "s' = s\<lparr>issued := issued s @ cs\<rparr>"
      "set cs \<subseteq> {GetPicnicClient, InitializePicnicClient}"
    using getClient_effect by blast
  have "\<not> isFetch x" if "x \<in> set cs" for x
    using that cs(2) by auto
  then have "filter isFetch cs = []"
    by (simp add: filter_empty_conv)
  with cs(1) show ?thesis
    by simp
qed

lemma getClient_cache:
  "getClient w s = (r, s') \<Longrightarrow>
     recipeCacheData s' = recipeCacheData s \<and> recipeCacheTimestamp s' = recipeCacheTimestamp s"
  by (drule getClient_effect) auto

lemma getClient_no_writes:
  "getClient w s = (r, s') \<Longrightarrow> filter isWrite (issued s') = filter isWrite (issued s)"
proof -
  assume "getClient w s = (r, s')"
  then obtain cs where cs: "s' = s\<lparr>issued := issued s @ cs\<rparr>"
      "set cs \<subseteq> {GetPicnicClient, InitializePicnicClient}"
    using getClient_effect by blast
  have "\<not> isWrite x" if "x \<in> set cs" for x
    using that cs(2) by auto
  then have "filter isWrite cs = []"
    by (simp add: filter_empty_conv)
  with cs(1) show ?thesis
    by simp
qed

lemma fetchRecipes_fresh:
  "isFresh s now \<Longrightarrow> recipeCacheData s = Some recipes \<Longrightarrow> fetchRecipes w now s = (Inr recipes, s)"
  by (simp add: fetchRecipes_def isFresh_def)

lemma fetchRecipes_stale: "\<not> isFresh s now \<Longrightarrow> fetchRecipes w now s = refresh w now s"
  by (auto simp: fetchRecipes_def isFresh_def split: option.splits)

lemma refresh_result:
  assumes "getClient w s = (Inr u, s1)"
    and "sendRequest w (issued s1) ''GET'' ''/pages/meals-planner-root'' JNull (Some True) = Inr response"
  shows "refresh w now s =
     (Inr (extractRecipes response),
      s1\<lparr>recipeCacheData := Some (extractRecipes response), recipeCacheTimestamp := now,
         issued := issued s1 @ [fetchCall]\<rparr>)"
  using assms
  by (simp add: refresh_def await_def client_sendRequest_def perform_def cacheRecipes_def)

lemma listRecipes_state: "snd (listRecipes recipes s) = s"
  by (simp add: listRecipes_def await_def js_def resolve_def split: sum.splits)

lemma getRecipeDetails_state: "snd (getRecipeDetails rid recipes s) = s"
  by (simp add: getRecipeDetails_def recipeDetails_def await_def js_def resolve_def
      split: sum.splits)

lemma addIngredients_fetches:
  "filter isFetch (issued (snd (addIngredients w c ings acc s))) = filter isFetch (issued s)"
proof (induction ings arbitrary: acc s)
  case (Cons i ings)
  obtain added sk un where acc: "acc = (added, sk, un)"
    by (cases acc) auto
  show ?case
    unfolding acc
    by (simp add: Cons client_addProductToShoppingCart_def perform_def split: sum.splits prod.splits)
qed simp

lemma addRecipeToCart_fetches:
  "filter isFetch (issued (snd (addRecipeToCart w rid sv recipes s))) = filter isFetch (issued s)"
proof -
  have "filter isFetch (issued (snd (addIngredients w c ings acc s1))) = filter isFetch (issued s)"
    if "getClient w s = (r, s1)" for c ings acc s1 r
    using that by (simp add: addIngredients_fetches getClient_fetches)
  moreover have "filter isFetch (issued s1) = filter isFetch (issued s)"
    if "getClient w s = (r, s1)" for s1 r
    using that by (rule getClient_fetches)
  ultimately show ?thesis
    unfolding addRecipeToCart_def await_def js_def resolve_def
    by (auto split: sum.splits prod.splits)
       (metis snd_conv)+
qed

lemma fetchRecipes_refreshed:
  assumes "\<not> isFresh s now" and "getClient w s = (Inr u, s1)"
    and "sendRequest w (issued s1) ''GET'' ''/pages/meals-planner-root'' JNull (Some True) = Inr response"
  shows "fetchRecipes w now s =
     (Inr (extractRecipes response),
      s1\<lparr>recipeCacheData := Some (extractRecipes response), recipeCacheTimestamp := now,
         issued := issued s1 @ [fetchCall]\<rparr>)"
  using assms by (simp add: fetchRecipes_stale refresh_result)

lemma handlers_after_fetch:
  assumes "fetchRecipes w now s = (Inr recipes, s')"
  shows "picnic_get_recipes w now s = listRecipes recipes s'"
    and "picnic_get_recipe_details w now rid s = getRecipeDetails rid recipes s'"
    and "picnic_add_recipe_to_cart w now rid sv s = addRecipeToCart w rid sv recipes s'"
  using assms
  by (simp_all add: picnic_get_recipes_def picnic_get_recipe_details_def
      picnic_add_recipe_to_cart_def await_def)

lemma handlers_fetches:
  assumes "fetchRecipes w now s = (Inr recipes, s')"
  shows "filter isFetch (issued (snd (picnic_get_recipes w now s))) = filter isFetch (issued s')"
    and "filter isFetch (issued (snd (picnic_get_recipe_details w now rid s))) =
           filter isFetch (issued s')"
    and "filter isFetch (issued (snd (picnic_add_recipe_to_cart w now rid sv s))) =
           filter isFetch (issued s')"
  using assms
  by (simp_all add: handlers_after_fetch listRecipes_state getRecipeDetails_state
      addRecipeToCart_fetches)

lemma refresh_returned:
  assumes "refresh w now s = (Inr found, s')"
  shows "\<exists>u s1 response.
           getClient w s = (Inr u, s1) \<and>
           sendRequest w (issued s1) ''GET'' ''/pages/meals-planner-root'' JNull (Some True)
             = Inr response \<and>
           found = extractRecipes response \<and>
           s' = s1\<lparr>recipeCacheData := Some found, recipeCacheTimestamp := now,
                    issued := issued s1 @ [fetchCall]\<rparr>"
proof -
  obtain r1 s1 where g: "getClient w s = (r1, s1)"
    by (cases "getClient w s") auto
  show ?thesis
  proof (cases r1)
    case (Inl e)
    with g assms show ?thesis
      by (simp add: refresh_def await_def)
  next
    case (Inr u)
    show ?thesis
    proof (cases "sendRequest w (issued s1) ''GET'' ''/pages/meals-planner-root'' JNull (Some True)")
      case (Inl e)
      with g Inr assms show ?thesis
        by (simp add: refresh_def await_def client_sendRequest_def perform_def)
    next
      case response: (Inr response)
      with g Inr assms have "found = extractRecipes response"
          "s' = s1\<lparr>recipeCacheData := Some found, recipeCacheTimestamp := now,
                    issued := issued s1 @ [fetchCall]\<rparr>"
        by (auto simp: refresh_def await_def client_sendRequest_def perform_def cacheRecipes_def)
      with g Inr response show ?thesis
        by blast
    qed
  qed
qed

text \<open>
  Claim C4. The cache is fresh exactly when an entry exists and less than 300000 ms have
  passed since its timestamp. A recipe operation called on a fresh cache issues no fetch and
  works on the cached sequence, from the unchanged state. Called on a stale or absent cache,
  with the client available and the page request answered, it issues exactly one fetch,
  replaces the cache by the sequence found in the answer and the timestamp by the time of the
  call, and works on the new sequence. Conversely, whenever \<^verbatim>\<open>fetchRecipes\<close> returns on a stale
  or absent cache, it has done exactly that.
\<close>

theorem cache_policy:
  "(isFresh s now =
      ((\<exists>recipes. recipeCacheData s = Some recipes) \<and>
       now - recipeCacheTimestamp s < 300000)) \<and>
   (isFresh s now \<and> recipeCacheData s = Some recipes \<longrightarrow>
      fetchRecipes w now s = (Inr recipes, s) \<and>
      picnic_get_recipes w now s = listRecipes recipes s \<and>
      picnic_get_recipe_details w now rid s = getRecipeDetails rid recipes s \<and>
      picnic_add_recipe_to_cart w now rid sv s = addRecipeToCart w rid sv recipes s \<and>
      filter isFetch (issued (snd (picnic_get_recipes w now s))) = filter isFetch (issued s) \<and>
      filter isFetch (issued (snd (picnic_get_recipe_details w now rid s))) =
        filter isFetch (issued s) \<and>
      filter isFetch (issued (snd (picnic_add_recipe_to_cart w now rid sv s))) =
        filter isFetch (issued s)) \<and>
   (\<not> isFresh s now \<and> getClient w s = (Inr u, s1) \<and>
    sendRequest w (issued s1) ''GET'' ''/pages/meals-planner-root'' JNull (Some True)
      = Inr response \<longrightarrow>
      (let found = extractRecipes response;
           s2 = s1\<lparr>recipeCacheData := Some found, recipeCacheTimestamp := now,
                   issued := issued s1 @ [fetchCall]\<rparr>
       in fetchRecipes w now s = (Inr found, s2) \<and>
          filter isFetch (issued s2) = filter isFetch (issued s) @ [fetchCall] \<and>
          isFresh s2 now \<and>
          picnic_get_recipes w now s = listRecipes found s2 \<and>
          picnic_get_recipe_details w now rid s = getRecipeDetails rid found s2 \<and>
          picnic_add_recipe_to_cart w now rid sv s = addRecipeToCart w rid sv found s2 \<and>
          filter isFetch (issued (snd (picnic_get_recipes w now s))) =
            filter isFetch (issued s) @ [fetchCall] \<and>
          filter isFetch (issued (snd (picnic_get_recipe_details w now rid s))) =
            filter isFetch (issued s) @ [fetchCall] \<and>
          filter isFetch (issued (snd (picnic_add_recipe_to_cart w now rid sv s))) =
            filter isFetch (issued s) @ [fetchCall])) \<and>
   (\<not> isFresh s now \<and> fetchRecipes w now s = (Inr returned, s') \<longrightarrow>
      filter isFetch (issued s') = filter isFetch (issued s) @ [fetchCall] \<and>
      recipeCacheData s' = Some returned \<and> recipeCacheTimestamp s' = now \<and>
      (\<exists>v s0 answer.
         getClient w s = (Inr v, s0) \<and>
         sendRequest w (issued s0) ''GET'' ''/pages/meals-planner-root'' JNull (Some True)
           = Inr answer \<and>
         returned = extractRecipes answer))"
proof -
  have A: "isFresh s now =
      ((\<exists>recipes. recipeCacheData s = Some recipes) \<and> now - recipeCacheTimestamp s < 300000)"
    by (simp add: isFresh_def RECIPE_CACHE_TTL_MS_def)
  have B: "fetchRecipes w now s = (Inr recipes, s) \<and>
      picnic_get_recipes w now s = listRecipes recipes s \<and>
      picnic_get_recipe_details w now rid s = getRecipeDetails rid recipes s \<and>
      picnic_add_recipe_to_cart w now rid sv s = addRecipeToCart w rid sv recipes s \<and>
      filter isFetch (issued (snd (picnic_get_recipes w now s))) = filter isFetch (issued s) \<and>
      filter isFetch (issued (snd (picnic_get_recipe_details w now rid s))) =
        filter isFetch (issued s) \<and>
      filter isFetch (issued (snd (picnic_add_recipe_to_cart w now rid sv s))) =
        filter isFetch (issued s)"
    if "isFresh s now \<and> recipeCacheData s = Some recipes"
  proof -
    from that have f: "fetchRecipes w now s = (Inr recipes, s)"
      by (simp add: fetchRecipes_fresh)
    show ?thesis
      using f handlers_after_fetch [OF f] handlers_fetches [OF f] by simp
  qed
  have C: "let found = extractRecipes response;
           s2 = s1\<lparr>recipeCacheData := Some found, recipeCacheTimestamp := now,
                   issued := issued s1 @ [fetchCall]\<rparr>
       in fetchRecipes w now s = (Inr found, s2) \<and>
          filter isFetch (issued s2) = filter isFetch (issued s) @ [fetchCall] \<and>
          isFresh s2 now \<and>
          picnic_get_recipes w now s = listRecipes found s2 \<and>
          picnic_get_recipe_details w now rid s = getRecipeDetails rid found s2 \<and>
          picnic_add_recipe_to_cart w now rid sv s = addRecipeToCart w rid sv found s2 \<and>
          filter isFetch (issued (snd (picnic_get_recipes w now s))) =
            filter isFetch (issued s) @ [fetchCall] \<and>
          filter isFetch (issued (snd (picnic_get_recipe_details w now rid s))) =
            filter isFetch (issued s) @ [fetchCall] \<and>
          filter isFetch (issued (snd (picnic_add_recipe_to_cart w now rid sv s))) =
            filter isFetch (issued s) @ [fetchCall]"
    if a: "\<not> isFresh s now \<and> getClient w s = (Inr u, s1) \<and>
    sendRequest w (issued s1) ''GET'' ''/pages/meals-planner-root'' JNull (Some True)
      = Inr response"
  proof -
  define found where "found = extractRecipes response"
  define s2 where "s2 = s1\<lparr>recipeCacheData := Some found, recipeCacheTimestamp := now,
                   issued := issued s1 @ [fetchCall]\<rparr>"
  from a have f: "fetchRecipes w now s = (Inr found, s2)"
    unfolding found_def s2_def by (simp add: fetchRecipes_refreshed)
  from a have "getClient w s = (Inr u, s1)"
    by simp
  then have "filter isFetch (issued s1) = filter isFetch (issued s)"
    by (rule getClient_fetches)
  then have one: "filter isFetch (issued s2) = filter isFetch (issued s) @ [fetchCall]"
    by (simp add: s2_def)
  have fresh: "isFresh s2 now"
    by (simp add: s2_def isFresh_def RECIPE_CACHE_TTL_MS_def)
  show ?thesis
    unfolding Let_def found_def [symmetric] s2_def [symmetric]
    using f one fresh handlers_after_fetch [OF f] handlers_fetches [OF f] by simp
  qed
  have D: "filter isFetch (issued s') = filter isFetch (issued s) @ [fetchCall] \<and>
      recipeCacheData s' = Some returned \<and> recipeCacheTimestamp s' = now \<and>
      (\<exists>v s0 answer.
         getClient w s = (Inr v, s0) \<and>
         sendRequest w (issued s0) ''GET'' ''/pages/meals-planner-root'' JNull (Some True)
           = Inr answer \<and>
         returned = extractRecipes answer)"
    if d: "\<not> isFresh s now \<and> fetchRecipes w now s = (Inr returned, s')"
  proof -
    from d have nf: "\<not> isFresh s now" and f: "fetchRecipes w now s = (Inr returned, s')"
      by simp_all
    have "refresh w now s = fetchRecipes w now s"
      using nf by (simp add: fetchRecipes_stale)
    also note f
    finally obtain v s0 answer where r: "getClient w s = (Inr v, s0)"
          "sendRequest w (issued s0) ''GET'' ''/pages/meals-planner-root'' JNull (Some True)
             = Inr answer"
          "returned = extractRecipes answer"
          "s' = s0\<lparr>recipeCacheData := Some returned, recipeCacheTimestamp := now,
                   issued := issued s0 @ [fetchCall]\<rparr>"
      using refresh_returned by blast
    from r(1) have "filter isFetch (issued s0) = filter isFetch (issued s)"
      by (rule getClient_fetches)
    with r(4) have 1: "filter isFetch (issued s') = filter isFetch (issued s) @ [fetchCall]"
      by simp
    from r(4) have 2: "recipeCacheData s' = Some returned" "recipeCacheTimestamp s' = now"
      by simp_all
    from r(1-3) have 3: "\<exists>v s0 answer.
           getClient w s = (Inr v, s0) \<and>
           sendRequest w (issued s0) ''GET'' ''/pages/meals-planner-root'' JNull (Some True)
             = Inr answer \<and>
           returned = extractRecipes answer"
      by (intro exI conjI)
    from 1 2 3 show ?thesis
      by (intro conjI)
  qed
  show ?thesis
    by (rule conjI, rule A, rule conjI, rule impI, erule B, rule conjI, rule impI, erule C,
        rule impI, erule D)
qed

lemma getClient_example:
  "getClient (exampleWorld cart respond add) s =
     (Inr (), s\<lparr>issued := issued s @ [GetPicnicClient, GetPicnicClient]\<rparr>)"
  by (simp add: getClient_def await_def ensureClientInitialized_def client_get_def perform_def
      exampleWorld_def)

lemma extractRecipes_mealsPage: "extractRecipes mealsPage = [pastaRecipe, staplesRecipe]"
  by (simp add: extractRecipes_def mealsPage_def pastaRecipe_def staplesRecipe_def
      isRecipeShaped_def)

theorem cache_policy_witness:
  "fetchRecipes (exampleWorld JNull servePage acceptAll) 1000 initialState =
     (Inr [pastaRecipe, staplesRecipe], cachedState) \<and>
   fetchRecipes (exampleWorld JNull servePage acceptAll) 300999 cachedState =
     (Inr [pastaRecipe, staplesRecipe], cachedState) \<and>
   fetchRecipes (exampleWorld JNull servePage acceptAll) 301000 cachedState =
     (Inr [pastaRecipe, staplesRecipe],
      cachedState\<lparr>recipeCacheTimestamp := 301000,
        issued := [GetPicnicClient, GetPicnicClient, fetchCall,
                   GetPicnicClient, GetPicnicClient, fetchCall]\<rparr>)"
proof -
  have send: "sendRequest (exampleWorld JNull servePage acceptAll) h ''GET''
      ''/pages/meals-planner-root'' JNull (Some True) = Inr mealsPage" for h
    by (simp add: exampleWorld_def servePage_def)
  have "\<not> isFresh initialState 1000"
    by (simp add: isFresh_def initialState_def)
  with cache_policy [of initialState 1000 _ "exampleWorld JNull servePage acceptAll" _ _ "()"
      "initialState\<lparr>issued := issued initialState @ [GetPicnicClient, GetPicnicClient]\<rparr>"
      mealsPage, THEN conjunct2, THEN conjunct2, THEN conjunct1]
  have 1: "fetchRecipes (exampleWorld JNull servePage acceptAll) 1000 initialState =
     (Inr [pastaRecipe, staplesRecipe], cachedState)"
    by (simp add: getClient_example send extractRecipes_mealsPage Let_def cachedState_def
        initialState_def)
  have "isFresh cachedState 300999"
    by (simp add: isFresh_def cachedState_def RECIPE_CACHE_TTL_MS_def)
  with cache_policy [of cachedState 300999 "[pastaRecipe, staplesRecipe]"
      "exampleWorld JNull servePage acceptAll", THEN conjunct2, THEN conjunct1]
  have 2: "fetchRecipes (exampleWorld JNull servePage acceptAll) 300999 cachedState =
     (Inr [pastaRecipe, staplesRecipe], cachedState)"
    by (simp add: cachedState_def)
  have "\<not> isFresh cachedState 301000"
    by (simp add: isFresh_def cachedState_def RECIPE_CACHE_TTL_MS_def)
  with cache_policy [of cachedState 301000 _ "exampleWorld JNull servePage acceptAll" _ _ "()"
      "cachedState\<lparr>issued := issued cachedState @ [GetPicnicClient, GetPicnicClient]\<rparr>"
      mealsPage, THEN conjunct2, THEN conjunct2, THEN conjunct1]
  have 3: "fetchRecipes (exampleWorld JNull servePage acceptAll) 301000 cachedState =
     (Inr [pastaRecipe, staplesRecipe],
      cachedState\<lparr>recipeCacheTimestamp := 301000,
        issued := [GetPicnicClient, GetPicnicClient, fetchCall,
                   GetPicnicClient, GetPicnicClient, fetchCall]\<rparr>)"
    by (simp add: getClient_example send extractRecipes_mealsPage Let_def cachedState_def)
  from 1 2 3 show ?thesis
    by simp
qed

section \<open>Properties of the recipe lookup\<close>

lemma fetchRecipes_no_writes:
  "fetchRecipes w now s = (r, s') \<Longrightarrow> filter isWrite (issued s') = filter isWrite (issued s)"
proof -
  assume a: "fetchRecipes w now s = (r, s')"
  have "filter isWrite (issued s') = filter isWrite (issued s)" if "refresh w now s = (r, s')"
    using that
    unfolding refresh_def await_def client_sendRequest_def perform_def cacheRecipes_def
    by (auto split: sum.splits prod.splits dest: getClient_no_writes)
  with a show ?thesis
    by (auto simp: fetchRecipes_def split: option.splits if_splits)
qed

lemma extractRecipes_shaped: "r \<in> set (extractRecipes t) \<Longrightarrow> isRecipeShaped r"
proof -
  assume "r \<in> set (extractRecipes t)"
  then have "Some r \<in> set (map Some (recurse t []))"
    by (simp add: extractRecipes_def)
  then have "Some r \<in> set (map (nodeAt t) (pathsOf t))"
    by (simp only: extractRecipes_paths)
  then obtain p where "p \<in> set (pathsOf t)" "nodeAt t p = Some r"
    by auto
  then show ?thesis
    using pathsOf_match [of p t] by (simp add: matchAt_def)
qed

lemma fetchRecipes_shaped:
  assumes "fetchRecipes w now s = (Inr recipes, s1)"
    and "\<And>rs. recipeCacheData s = Some rs \<Longrightarrow> \<forall>r\<in>set rs. isRecipeShaped r"
  shows "(\<forall>r\<in>set recipes. isRecipeShaped r) \<and> recipeCacheData s1 = Some recipes"
proof -
  have "(\<forall>r\<in>set recipes. isRecipeShaped r) \<and> recipeCacheData s1 = Some recipes"
    if "refresh w now s = (Inr recipes, s1)"
    using that
    unfolding refresh_def await_def client_sendRequest_def perform_def cacheRecipes_def
    by (auto split: sum.splits prod.splits simp: extractRecipes_shaped)
  with assms show ?thesis
    by (auto simp: fetchRecipes_def split: option.splits if_splits)
qed

lemma findRecipe_absent:
  assumes "\<forall>r\<in>set recipes. isRecipeShaped r"
    and "\<forall>r\<in>set recipes. optProp r ''recipe_id'' \<noteq> JStr rid"
  shows "findRecipe rid recipes = Inr JUndefined"
  using assms
proof (induction recipes)
  case (Cons r rs)
  then have "isRecipeShaped r"
    by simp
  then have "truthy (optProp r ''recipe_id'')"
    by (simp add: isRecipeShaped_def)
  then have "getProp r ''recipe_id'' = Inr (optProp r ''recipe_id'')"
    by (rule truthy_optProp)
  with Cons show ?case
    by simp
qed simp

text \<open>
  Claim C7. When the recipe sequence that the handler obtains (recipe-shaped nodes, as the
  cache only ever holds) has no recipe with the requested identifier, both
  \<^verbatim>\<open>picnic_get_recipe_details\<close> and \<^verbatim>\<open>picnic_add_recipe_to_cart\<close> return, as a value, the
  not-found object that carries the identifier in its message and names \<^verbatim>\<open>picnic_get_recipes\<close>
  as the remedy; no call follows the recipe fetch and no write call is issued.
\<close>

theorem recipe_not_found:
  assumes "fetchRecipes w now s = (Inr recipes, s1)"
    and "\<forall>r\<in>set recipes. isRecipeShaped r"
    and "\<forall>r\<in>set recipes. optProp r ''recipe_id'' \<noteq> JStr rid"
  shows "picnic_get_recipe_details w now rid s = (Inr (notFound rid), s1) \<and>
         picnic_add_recipe_to_cart w now rid sv s = (Inr (notFound rid), s1) \<and>
         filter isWrite (issued s1) = filter isWrite (issued s) \<and>
         notFound rid =
           JObj [(''error'', JStr (''Recipe '' @ [CHR 0x27] @ rid @ [CHR 0x27] @ '' not found'')),
                 (''suggestion'', JStr ''Use picnic_get_recipes to find valid recipe IDs.'')]"
proof -
  have absent: "findRecipe rid recipes = Inr JUndefined"
    using assms(2,3) by (rule findRecipe_absent)
  have "picnic_get_recipe_details w now rid s = getRecipeDetails rid recipes s1"
    using assms(1) by (rule handlers_after_fetch)
  then have 1: "picnic_get_recipe_details w now rid s = (Inr (notFound rid), s1)"
    by (simp add: getRecipeDetails_def await_def js_def resolve_def absent)
  have "picnic_add_recipe_to_cart w now rid sv s = addRecipeToCart w rid sv recipes s1"
    using assms(1) by (rule handlers_after_fetch)
  then have 2: "picnic_add_recipe_to_cart w now rid sv s = (Inr (notFound rid), s1)"
    by (simp add: addRecipeToCart_def await_def js_def resolve_def absent)
  have 3: "filter isWrite (issued s1) = filter isWrite (issued s)"
    using assms(1) by (rule fetchRecipes_no_writes)
  from 1 2 3 show ?thesis
    by (simp add: notFound_def)
qed

lemma fetch_cachedState:
  "fetchRecipes w 2000 cachedState = (Inr [pastaRecipe, staplesRecipe], cachedState)"
  by (simp add: fetchRecipes_def cachedState_def RECIPE_CACHE_TTL_MS_def)

theorem recipe_not_found_witness:
  "picnic_get_recipe_details (exampleWorld JNull servePage acceptAll) 2000 ''r9'' cachedState =
     (Inr (JObj [(''error'', JStr (''Recipe '' @ [CHR 0x27] @ ''r9'' @ [CHR 0x27] @ '' not found'')),
                 (''suggestion'', JStr ''Use picnic_get_recipes to find valid recipe IDs.'')]),
      cachedState) \<and>
   picnic_add_recipe_to_cart (exampleWorld JNull servePage acceptAll) 2000 ''r9'' (Some 4)
       cachedState =
     (Inr (JObj [(''error'', JStr (''Recipe '' @ [CHR 0x27] @ ''r9'' @ [CHR 0x27] @ '' not found'')),
                 (''suggestion'', JStr ''Use picnic_get_recipes to find valid recipe IDs.'')]),
      cachedState)"
proof -
  have "\<forall>r\<in>set [pastaRecipe, staplesRecipe]. isRecipeShaped r"
    by (simp add: pastaRecipe_def staplesRecipe_def isRecipeShaped_def)
  moreover have "\<forall>r\<in>set [pastaRecipe, staplesRecipe]. optProp r ''recipe_id'' \<noteq> JStr ''r9''"
    by (simp add: pastaRecipe_def staplesRecipe_def)
  ultimately show ?thesis
    using recipe_not_found [OF fetch_cachedState, of "''r9''"
        "exampleWorld JNull servePage acceptAll" "Some 4"] by simp
qed

section \<open>Properties of the arithmetic\<close>

text \<open>
  \<^verbatim>\<open>bitLength\<close> and \<^verbatim>\<open>ilog2\<close> find the binade of their argument, so that \<^verbatim>\<open>fl\<close> gives the nearest
  multiple of the distance between the doubles of that binade; a double is left as it is,
  and the whole numbers up to \<^verbatim>\<open>2^53\<close> are doubles.
\<close>

lemma pow2_pos: "0 < pow2 e"
  by (simp add: pow2_def)

lemma pow2_nat: "pow2 (int j) = 2 ^ j"
  by (simp add: pow2_def)

lemma pow2_neg: "pow2 (- int j) = 1 / 2 ^ j"
  by (simp add: pow2_def)


lemma bitLength_unique:
  fixes n :: int
  shows "2 ^ j \<le> n \<Longrightarrow> n < 2 ^ Suc j \<Longrightarrow> bitLength n = int j + 1"
proof (induction j arbitrary: n)
  case 0
  then have "n = 1"
    by simp
  then show ?case
    by (simp add: bitLength.simps)
next
  case (Suc j)
  from Suc.prems have "2 ^ j \<le> n div 2" "n div 2 < 2 ^ Suc j"
    by simp_all
  then have "bitLength (n div 2) = int j + 1"
    by (rule Suc.IH)
  moreover from Suc.prems have "0 < n"
    using zero_less_power [of "2::int" "Suc j"] by linarith
  then have "bitLength n = 1 + bitLength (n div 2)"
    by (subst bitLength.simps) simp
  ultimately show ?case
    by simp
qed

lemma ilog2_unique:
  assumes "pow2 e \<le> a" and "a < pow2 (e + 1)"
  shows "ilog2 a = e"
proof (cases "0 \<le> e")
  case True
  define j where "j = nat e"
  with True have e: "e = int j"
    by simp
  from assms have a: "2 ^ j \<le> a" "a < 2 ^ Suc j"
    unfolding e using pow2_nat [of j] pow2_nat [of "Suc j"] by (simp_all add: add.commute)
  have "(1::rat) \<le> 2 ^ j"
    by simp
  with a(1) have one: "1 \<le> a"
    by linarith
  from a(1) have "(2::int) ^ j \<le> \<lfloor>a\<rfloor>"
    by (simp add: le_floor_iff)
  moreover from a(2) have "\<lfloor>a\<rfloor> < (2::int) ^ Suc j"
    by (simp add: floor_less_iff)
  ultimately have "bitLength \<lfloor>a\<rfloor> = int j + 1"
    by (rule bitLength_unique)
  with one show ?thesis
    by (simp add: ilog2_def e)
next
  case False
  define j where "j = nat (- e - 1)"
  with False have e: "e = - int (Suc j)"
    by simp
  have e1: "e + 1 = - int j"
    by (simp add: e)
  from assms have a: "1 / 2 ^ Suc j \<le> a" "a < 1 / 2 ^ j"
    unfolding e1 unfolding e using pow2_neg [of j] pow2_neg [of "Suc j"] by simp_all
  have pos: "0 < a"
    using a(1) by (rule less_le_trans [rotated]) simp
  have "(1::rat) / 2 ^ j \<le> 1"
    by simp
  with a(2) have small: "\<not> 1 \<le> a"
    by linarith
  from a(1) pos have "1 / a \<le> 2 ^ Suc j"
    by (simp add: field_simps)
  then have up: "\<lceil>1 / a\<rceil> \<le> (2::int) ^ Suc j"
    by (simp add: ceiling_le_iff)
  from a(2) pos have "2 ^ j < 1 / a"
    by (simp add: field_simps)
  then have "(2::int) ^ j < \<lceil>1 / a\<rceil>"
    by (simp add: less_ceiling_iff)
  then have "(2::int) ^ j \<le> \<lceil>1 / a\<rceil> - 1"
    by simp
  moreover from up have "\<lceil>1 / a\<rceil> - 1 < (2::int) ^ Suc j"
    by simp
  ultimately have "bitLength (\<lceil>1 / a\<rceil> - 1) = int j + 1"
    by (rule bitLength_unique)
  with small show ?thesis
    by (simp add: ilog2_def e)
qed

lemma ulp_unique:
  assumes "pow2 e \<le> a" and "a < pow2 (e + 1)"
  shows "ulp a = pow2 (max e (- 1022) - 52)"
  using ilog2_unique [OF assms] by (simp add: ulp_def)


lemma roundEven_nearest:
  assumes "\<bar>x - of_int n\<bar> < 1 / 2"
  shows "roundEven x = n"
proof (cases "of_int n \<le> x")
  case True
  with assms have "\<lfloor>x\<rfloor> = n"
    by (intro floor_unique) simp_all
  with assms True show ?thesis
    by (simp add: roundEven_def)
next
  case False
  with assms have "\<lfloor>x\<rfloor> = n - 1"
    by (intro floor_unique) simp_all
  with assms False show ?thesis
    by (simp add: roundEven_def)
qed

lemma fl_nearest:
  assumes "pow2 e \<le> r" and "r < pow2 (e + 1)" and "- 1022 \<le> e"
    and "\<bar>r / pow2 (e - 52) - of_int n\<bar> < 1 / 2"
    and "of_int n * pow2 (e - 52) < pow2 1024"
  shows "fl r = Finite (of_int n * pow2 (e - 52))"
proof -
  from assms(1) have pos: "0 < r"
    using pow2_pos [of e] by simp
  then have abs: "\<bar>r\<bar> = r"
    by simp
  from assms(3) have "ulp r = pow2 (e - 52)"
    using ulp_unique [OF assms(1,2)] by (simp add: max_def)
  moreover from assms(4) have "roundEven (r / pow2 (e - 52)) = n"
    by (rule roundEven_nearest)
  ultimately show ?thesis
    using pos assms(5) by (simp add: fl_def Let_def abs)
qed




lemma fl_examples:
  "fl 1 = Finite 1" "fl 2 = Finite 2" "fl 3 = Finite 3" "fl 6 = Finite 6"
  "fl (3 / 2) = Finite (3 / 2)"
  using fl_nearest [of 0 1 "2 ^ 52"] fl_nearest [of 1 2 "2 ^ 52"] fl_nearest [of 1 3 "3 * 2 ^ 51"]
    fl_nearest [of 2 6 "3 * 2 ^ 51"] fl_nearest [of 0 "3 / 2" "3 * 2 ^ 51"]
  by (simp_all add: pow2_def)






section \<open>Properties of adding a recipe to the cart\<close>











lemmas example_defs =
  pastaRecipe_def staplesRecipe_def ingredient_def purchasable_def isCupboard_def
  isAvailable_def unitQuantity_def num_def



section \<open>Failure of an add-to-cart call\<close>

lemma addIngredients_append:
  "addIngredients w c (xs @ ys) acc s =
     (case addIngredients w c xs acc s of
        (Inl e, s') \<Rightarrow> (Inl e, s')
      | (Inr acc', s') \<Rightarrow> addIngredients w c ys acc' s')"
proof (induction xs arbitrary: acc s)
  case (Cons x xs)
  obtain added sk un where acc: "acc = (added, sk, un)"
    by (cases acc) auto
  show ?case
    unfolding acc by (simp add: Cons split: sum.splits prod.splits)
qed simp

lemma addIngredients_refused:
  assumes "i \<noteq> JUndefined" "i \<noteq> JNull" "purchasable i"
    and "addProductToShoppingCart w (issued s) (optProp i ''selling_unit_id'') (quantityOf w c i)
           = Inl e"
  shows "addIngredients w c (i # rest) acc s =
     (Inl e, s\<lparr>issued := issued s @
        [AddProductToShoppingCart (optProp i ''selling_unit_id'') (quantityOf w c i)]\<rparr>)"
proof -
  obtain added sk un where acc: "acc = (added, sk, un)"
    by (cases acc) auto
  from assms(1,2) have "getProp i ''ingredient_type'' = Inr (optProp i ''ingredient_type'')"
    by (rule getProp_optProp)
  with assms(3,4) show ?thesis
    unfolding acc
    by (simp add: purchasable_def isCupboard_def isAvailable_def
        client_addProductToShoppingCart_def perform_def)
qed

lemma ceiling_three_halves: "\<lceil>(3::rat) / 2\<rceil> = 2"
  by (rule ceiling_unique) simp_all

text \<open>
  Against claim C1 as stated: with the cached pasta recipe and a client that refuses the
  cream, the handler ends with the client's fault. No result is returned, the tomatoes added
  before the refusal are not reported, and the penne after it are never tried.
\<close>

theorem add_failure_is_not_caught:
  "picnic_add_recipe_to_cart (exampleWorld JNull servePage refuseCream) 2000 ''r1'' None
       cachedState =
     (Inl (ClientError ''product unavailable''),
      cachedState\<lparr>issued := issued cachedState @
        [GetPicnicClient, GetPicnicClient,
         AddProductToShoppingCart (JStr ''p-tomato'') (Finite 3),
         AddProductToShoppingCart (JStr ''p-cream'') (Finite 2)]\<rparr>)"
  by (simp add: picnic_add_recipe_to_cart_def await_def fetchRecipes_def cachedState_def
      RECIPE_CACHE_TTL_MS_def addRecipeToCart_def js_def resolve_def pastaRecipe_def
      staplesRecipe_def ingredient_def getClient_def ensureClientInitialized_def client_get_def
      perform_def exampleWorld_def refuseCream_def client_addProductToShoppingCart_def
      scaleOf_def servingsOf_def quantityOf_def num_def fl_examples ceiling_three_halves)

text \<open>
  Claim C1, as amended. A fault of an ingredient's add-to-cart call is not caught. When the
  ingredients before it have been processed and the call for a purchasable ingredient fails,
  the handler ends with that fault: the failing call is the last call issued, the remaining
  ingredients are not processed, and no result (neither the items added so far nor a record of
  the failure) is returned. The additions already made stay in the cart.
\<close>

theorem add_failure_propagates:
  assumes "fetchRecipes w now s = (Inr recipes, s1)"
    and "findRecipe rid recipes = Inr recipe" and "truthy recipe"
    and "optProp recipe ''ingredients'' = JArr (before @ i # rest)"
    and "getClient w s1 = (Inr u, s2)"
    and "addIngredients w (scaleOf w sv recipe) before ([], [], []) s2 = (Inr sofar, s3)"
    and "i \<noteq> JUndefined" and "i \<noteq> JNull" and "purchasable i"
    and "addProductToShoppingCart w (issued s3) (optProp i ''selling_unit_id'')
           (quantityOf w (scaleOf w sv recipe) i) = Inl e"
  shows "picnic_add_recipe_to_cart w now rid sv s =
     (Inl e, s3\<lparr>issued := issued s3 @
        [AddProductToShoppingCart (optProp i ''selling_unit_id'')
           (quantityOf w (scaleOf w sv recipe) i)]\<rparr>)"
proof -
  have "picnic_add_recipe_to_cart w now rid sv s = addRecipeToCart w rid sv recipes s1"
    using assms(1) by (rule handlers_after_fetch)
  moreover have "addIngredients w (scaleOf w sv recipe) (before @ i # rest) ([], [], []) s2 =
     (Inl e, s3\<lparr>issued := issued s3 @
        [AddProductToShoppingCart (optProp i ''selling_unit_id'')
           (quantityOf w (scaleOf w sv recipe) i)]\<rparr>)"
    using assms(6) addIngredients_refused [OF assms(7-10)]
    by (simp add: addIngredients_append)
  ultimately show ?thesis
    using assms(2-5) by (simp add: addRecipeToCart_def await_def js_def resolve_def)
qed

lemma refuse_example:
  "addProductToShoppingCart (exampleWorld c r refuseCream) h pid n = refuseCream pid"
  by (simp add: exampleWorld_def)

theorem add_failure_propagates_witness:
  "picnic_add_recipe_to_cart (exampleWorld JNull servePage refuseCream) 2000 ''r1'' (Some 4)
       cachedState =
     (Inl (ClientError ''product unavailable''),
      cachedState\<lparr>issued := issued cachedState @
        [GetPicnicClient, GetPicnicClient,
         AddProductToShoppingCart (JStr ''p-tomato'') (Finite 6),
         AddProductToShoppingCart (JStr ''p-cream'') (Finite 3)]\<rparr>)"
  using add_failure_propagates [OF fetch_cachedState _ _ _ getClient_example,
      where rid = "''r1''" and recipe = pastaRecipe and sv = "Some 4"
        and before = "[ingredient ''p-salt'' ''Salt'' ''CUPBOARD'' 1 ''AVAILABLE'',
                    ingredient ''p-tomato'' ''Tomato'' ''CORE'' 3 ''AVAILABLE'',
                    ingredient ''p-basil'' ''Basil'' ''VARIATION'' 1 ''OUT_OF_STOCK'']"
        and i = "ingredient ''p-cream'' ''Cream'' ''CORE'' 1.5 ''AVAILABLE''"
        and rest = "[ingredient ''p-pasta'' ''Penne'' ''CORE'' 1 ''AVAILABLE'']"
        and e = "ClientError ''product unavailable''"
        and sofar = "([JObj [(''name'', JStr ''Tomato''), (''quantity'', num 6)]],
                      [JStr ''Salt''], [JStr ''Basil''])"
        and ?s3.0 = "cachedState\<lparr>issued := issued cachedState @
            [GetPicnicClient, GetPicnicClient,
             AddProductToShoppingCart (JStr ''p-tomato'') (Finite 6)]\<rparr>"]
  by (simp add: example_defs refuse_example refuseCream_def scaleOf_def servingsOf_def
      quantityOf_def client_addProductToShoppingCart_def perform_def fl_examples)

end
